theory Spec2Isabelle
  imports Main "HOL-Library.Word" "HOL-Library.Multiset"
begin

section \<open>The loxilb ingress reconciler\<close>

text \<open>
  A shallow embedding of \<^verbatim>\<open>managers/ingress.go\<close> (the current version of the file, the one
  that computes both \<^verbatim>\<open>ruleName\<close> and \<^verbatim>\<open>ruleNameHTTPS\<close>). Every call to a collaborator
  (the Kubernetes client \<^verbatim>\<open>r.Get\<close>, \<^verbatim>\<open>r.List\<close>, \<^verbatim>\<open>r.Status().Update\<close> and the loxilb
  client \<^verbatim>\<open>r.LoxiClient.LoadBalancer()\<close>) is recorded in a trace of events, in the order in
  which the code makes it. The state of the remote rule store is threaded explicitly.
\<close>

subsection \<open>Go values\<close>

text \<open>
  A Go \<^verbatim>\<open>error\<close>: what \<^verbatim>\<open>err.Error()\<close> prints and whether \<^verbatim>\<open>errors.IsNotFound(err)\<close>
  holds. Errors made by \<^verbatim>\<open>fmt.Errorf\<close> are never of the not-found kind.
\<close>

datatype go_error = GoError (IsNotFound: bool) (Error: string)

definition Errorf :: "string \<Rightarrow> go_error" where
  "Errorf msg = GoError False msg"

text \<open>\<^verbatim>\<open>ctrl.Result\<close>; the duration is in nanoseconds, as \<^verbatim>\<open>time.Duration\<close> is.\<close>

record ctrl_Result =
  RequeueAfter :: int

definition Second :: int where
  "Second = 1000000000"

subsection \<open>The loxilb API model (package loxiapi)\<close>

record LoadBalancerEndpoint =
  EndpointIP :: string
  TargetPort :: "16 word"
  Weight :: "8 word"

datatype EpSelect = LbSelRr | LbSelHash | LbSelPrio | LbSelRrPersist | LbSelLeastConnections | LbSelN2

record LoadBalancerService =
  ExternalIP :: string
  Port :: "16 word"
  Protocol :: string
  Sel :: EpSelect
  Mode :: int
  Security :: "32 word"
  Name :: string
  Host :: string

record LoadBalancerModel =
  Service :: LoadBalancerService
  Endpoints :: "LoadBalancerEndpoint list"

subsection \<open>The Kubernetes objects the reconciler reads\<close>

record NamespacedName =
  nn_Namespace :: string
  nn_Name :: string

record ServiceBackendPort =
  sbp_Name :: string
  sbp_Number :: "32 word"

record IngressServiceBackend =
  isb_Name :: string
  isb_Port :: ServiceBackendPort

record IngressBackend =
  ib_Service :: "IngressServiceBackend option"

record HTTPIngressPath =
  hip_Path :: string
  hip_Backend :: IngressBackend

record HTTPIngressRuleValue =
  Paths :: "HTTPIngressPath list"

record IngressRule =
  ir_Host :: string
  ir_HTTP :: "HTTPIngressRuleValue option"

record IngressTLS =
  tls_Hosts :: "string list"

record IngressPortStatus =
  ips_Port :: "32 word"
  ips_Protocol :: string
  ips_Error :: "string option"

record IngressLoadBalancerIngress =
  ilbi_IP :: string
  ilbi_Hostname :: string
  ilbi_Ports :: "IngressPortStatus list"

text \<open>
  \<^verbatim>\<open>netv1.Ingress\<close>: \<open>ing_Rules\<close> is \<^verbatim>\<open>Spec.Rules\<close>, \<open>ing_TLS\<close> is \<^verbatim>\<open>Spec.TLS\<close> and
  \<open>ing_Status\<close> is \<^verbatim>\<open>Status.LoadBalancer.Ingress\<close>.
\<close>

record Ingress =
  ing_Namespace :: string
  ing_Name :: string
  ing_Annotations :: "string \<rightharpoonup> string"
  ing_Rules :: "IngressRule list"
  ing_TLS :: "IngressTLS list"
  ing_Status :: "IngressLoadBalancerIngress list"

record EndpointAddress =
  ea_IP :: string

record EndpointPort =
  ep_Port :: "32 word"

record EndpointSubset =
  Addresses :: "EndpointAddress list"
  Ports :: "EndpointPort list"

record Endpoints =
  Subsets :: "EndpointSubset list"

text \<open>\<^verbatim>\<open>intstr.IntOrString\<close>: a number (\<^verbatim>\<open>Type == Int\<close>) or a name (\<^verbatim>\<open>Type == String\<close>).\<close>

datatype IntOrString = IntVal "32 word" | StrVal string

record ServicePort =
  sp_Protocol :: string
  sp_Port :: "32 word"
  sp_TargetPort :: IntOrString

record PortStatus =
  ps_Port :: "32 word"
  ps_Protocol :: string
  ps_Error :: "string option"

record LoadBalancerIngress =
  lbi_IP :: string
  lbi_Hostname :: string
  lbi_Ports :: "PortStatus list"

text \<open>
  \<^verbatim>\<open>corev1.Service\<close>: \<open>svc_Ports\<close> is \<^verbatim>\<open>Spec.Ports\<close>, \<open>svc_Selector\<close> is \<^verbatim>\<open>Spec.Selector\<close>
  and \<open>svc_Status\<close> is \<^verbatim>\<open>Status.LoadBalancer.Ingress\<close>.
\<close>

record corev1_Service =
  svc_Name :: string
  svc_Ports :: "ServicePort list"
  svc_Selector :: "string \<rightharpoonup> string"
  svc_Status :: "LoadBalancerIngress list"

record ContainerPort =
  cp_Name :: string
  cp_ContainerPort :: "32 word"

record Container =
  c_Ports :: "ContainerPort list"

record Pod =
  pod_Containers :: "Container list"

subsection \<open>The collaborators\<close>

text \<open>
  The Kubernetes client. Reads answer from an object store that does not change during a
  pass; \<open>statusUpdate\<close> is the answer of \<^verbatim>\<open>r.Status().Update\<close>.
\<close>

record Client =
  getIngress :: "NamespacedName \<Rightarrow> go_error + Ingress"
  getEndpoints :: "NamespacedName \<Rightarrow> go_error + Endpoints"
  getService :: "NamespacedName \<Rightarrow> go_error + corev1_Service"
  listPods :: "(string \<rightharpoonup> string) \<Rightarrow> go_error + Pod list"
  statusUpdate :: "Ingress \<Rightarrow> go_error option"

text \<open>
  The loxilb client over a remote rule store in state \<open>'s\<close>: \<^verbatim>\<open>LoxiClient.Host\<close> and the three
  operations of \<^verbatim>\<open>LoxiClient.LoadBalancer()\<close>, each returning its answer and the next state.
\<close>

record 's LoxiClient =
  lc_Host :: string
  lbList :: "'s \<Rightarrow> (go_error + LoadBalancerModel list) \<times> 's"
  lbCreate :: "LoadBalancerModel \<Rightarrow> 's \<Rightarrow> go_error option \<times> 's"
  lbDeleteByName :: "string \<Rightarrow> 's \<Rightarrow> go_error option \<times> 's"

datatype event =
    GetIngress NamespacedName
  | GetEndpoints NamespacedName
  | GetService NamespacedName
  | ListPods "string \<rightharpoonup> string"
  | StatusUpdate Ingress
  | LbList
  | LbCreate LoadBalancerModel
  | LbDeleteByName string

subsection \<open>Building the rule models\<close>

text \<open>\<^verbatim>\<open>createLoxiLoadBalancerService\<close>; \<^verbatim>\<open>Sel\<close> is left at its zero value.\<close>

definition createLoxiLoadBalancerService ::
  "string \<Rightarrow> string \<Rightarrow> string \<Rightarrow> 32 word \<Rightarrow> string \<Rightarrow> LoadBalancerService" where
  "createLoxiLoadBalancerService ns name externalIP security host =
     (let service = \<lparr>ExternalIP = externalIP, Port = 0, Protocol = ''tcp'', Sel = LbSelRr,
                      Mode = 4, Security = security, Name = ns @ ''_'' @ name, Host = host\<rparr>
      in if security = 0 then service\<lparr>Port := 80\<rparr> else service\<lparr>Port := 443\<rparr>)"

text \<open>The error of the resolver when it has collected no endpoint.\<close>

definition NoReadyEndpoints :: "string \<Rightarrow> string \<Rightarrow> go_error" where
  "NoReadyEndpoints ns name =
     Errorf (''no endpoints have been added to the '' @ ns @ ''/'' @ name @ '' service yet. please wait'')"

text \<open>The two loops of \<^verbatim>\<open>createLoxiLoadBalancerEndpointsWithTargetPort\<close>.\<close>

fun addressesLoop ::
  "EndpointAddress list \<Rightarrow> 32 word \<Rightarrow> LoadBalancerEndpoint list \<Rightarrow> LoadBalancerEndpoint list" where
  "addressesLoop [] targetPort loxilbEpList = loxilbEpList"
| "addressesLoop (addr # addrs) targetPort loxilbEpList =
     addressesLoop addrs targetPort
       (loxilbEpList @ [\<lparr>EndpointIP = ea_IP addr, TargetPort = ucast targetPort, Weight = 1\<rparr>])"

fun subsetsLoop ::
  "EndpointSubset list \<Rightarrow> 32 word \<Rightarrow> LoadBalancerEndpoint list \<Rightarrow> LoadBalancerEndpoint list" where
  "subsetsLoop [] targetPort loxilbEpList = loxilbEpList"
| "subsetsLoop (sub # subsets) targetPort loxilbEpList =
     subsetsLoop subsets targetPort (addressesLoop (Addresses sub) targetPort loxilbEpList)"

definition createLoxiLoadBalancerEndpointsWithTargetPort ::
  "Client \<Rightarrow> string \<Rightarrow> string \<Rightarrow> 32 word
     \<Rightarrow> LoadBalancerEndpoint list \<times> go_error option \<times> event list" where
  "createLoxiLoadBalancerEndpointsWithTargetPort k ns name targetPort =
     (let key = \<lparr>nn_Namespace = ns, nn_Name = name\<rparr> in
      case getEndpoints k key of
        Inl err \<Rightarrow> ([], Some err, [GetEndpoints key])
      | Inr ep \<Rightarrow>
          (let loxilbEpList = subsetsLoop (Subsets ep) targetPort [] in
           if length loxilbEpList \<le> 0
           then (loxilbEpList, Some (NoReadyEndpoints ns name), [GetEndpoints key])
           else (loxilbEpList, None, [GetEndpoints key])))"

text \<open>\<^verbatim>\<open>checkTLSHost\<close>: the inner and the outer loop.\<close>

fun checkTLSHostIn :: "string \<Rightarrow> string list \<Rightarrow> bool" where
  "checkTLSHostIn host [] = False"
| "checkTLSHostIn host (tlsHost # hosts) = (if host = tlsHost then True else checkTLSHostIn host hosts)"

fun checkTLSHost :: "string \<Rightarrow> IngressTLS list \<Rightarrow> bool" where
  "checkTLSHost host [] = False"
| "checkTLSHost host (tls # TLS) =
     (if checkTLSHostIn host (tls_Hosts tls) then True else checkTLSHost host TLS)"

definition getBackendServiceNamespace :: "Ingress \<Rightarrow> string \<Rightarrow> string" where
  "getBackendServiceNamespace ingress backendName =
     (case ing_Annotations ingress ''external-backend-service'' of
        Some _ \<Rightarrow>
          (case ing_Annotations ingress (''service-'' @ backendName @ ''-namespace'') of
             Some backendNamespace \<Rightarrow> backendNamespace
           | None \<Rightarrow> ing_Namespace ingress)
      | None \<Rightarrow> ing_Namespace ingress)"

text \<open>
  \<^verbatim>\<open>createLoxiModelList\<close>: the loop over the paths of one rule, then the loop over the rules.
  Each returns the models collected so far and the error that stopped it, if any.
\<close>

fun pathsLoop ::
  "Client \<Rightarrow> string \<Rightarrow> Ingress \<Rightarrow> IngressRule \<Rightarrow> HTTPIngressPath list
     \<Rightarrow> LoadBalancerModel list \<Rightarrow> event list
     \<Rightarrow> LoadBalancerModel list \<times> go_error option \<times> event list" where
  "pathsLoop k host ingress rule [] models evs = (models, None, evs)"
| "pathsLoop k host ingress rule (path # paths) models evs =
     (case ib_Service (hip_Backend path) of
        None \<Rightarrow> pathsLoop k host ingress rule paths models evs
      | Some svc \<Rightarrow>
          (let name = isb_Name svc;
               ns = getBackendServiceNamespace ingress name;
               port = sbp_Number (isb_Port svc);
               security = (if checkTLSHost (ir_Host rule) (ing_TLS ingress) then 1 else 0 :: 32 word);
               lbName = (if security = 1 then ing_Name ingress @ ''_https'' else ing_Name ingress);
               loxisvc = createLoxiLoadBalancerService (ing_Namespace ingress) lbName host security
                           (ir_Host rule);
               (loxiep, err, ev) = createLoxiLoadBalancerEndpointsWithTargetPort k ns name port
           in case err of
                Some e \<Rightarrow> (models, Some e, evs @ ev)
              | None \<Rightarrow>
                  pathsLoop k host ingress rule paths
                    (models @ [\<lparr>Service = loxisvc, Endpoints = loxiep\<rparr>]) (evs @ ev)))"

fun rulesLoop ::
  "Client \<Rightarrow> string \<Rightarrow> Ingress \<Rightarrow> IngressRule list
     \<Rightarrow> LoadBalancerModel list \<Rightarrow> event list
     \<Rightarrow> LoadBalancerModel list \<times> go_error option \<times> event list" where
  "rulesLoop k host ingress [] models evs = (models, None, evs)"
| "rulesLoop k host ingress (rule # rules) models evs =
     (case ir_HTTP rule of
        None \<Rightarrow> rulesLoop k host ingress rules models evs
      | Some http \<Rightarrow>
          (case pathsLoop k host ingress rule (Paths http) models evs of
             (models', Some e, evs') \<Rightarrow> (models', Some e, evs')
           | (models', None, evs') \<Rightarrow> rulesLoop k host ingress rules models' evs'))"

definition createLoxiModelList ::
  "Client \<Rightarrow> string \<Rightarrow> Ingress \<Rightarrow> LoadBalancerModel list \<times> go_error option \<times> event list" where
  "createLoxiModelList k host ingress = rulesLoop k host ingress (ing_Rules ingress) [] []"

subsection \<open>Direct-service mode\<close>

text \<open>
  \<^verbatim>\<open>strings.ToLower\<close> on the ASCII letters; the values of \<^verbatim>\<open>corev1.Protocol\<close> are ASCII.
\<close>

definition toLowerChar :: "char \<Rightarrow> char" where
  "toLowerChar ch =
     (if 65 \<le> (of_char ch :: nat) \<and> (of_char ch :: nat) \<le> 90
      then char_of ((of_char ch :: nat) + 32) else ch)"

definition ToLower :: "string \<Rightarrow> string" where
  "ToLower str = map toLowerChar str"

definition createDirectLoxiLoadBalancerService ::
  "string \<Rightarrow> string \<Rightarrow> string \<Rightarrow> string \<Rightarrow> string \<Rightarrow> string \<Rightarrow> 32 word
     \<Rightarrow> LoadBalancerService" where
  "createDirectLoxiLoadBalancerService ns name externalIP protocol host epSelect port =
     (let service = \<lparr>ExternalIP = externalIP, Port = ucast port, Protocol = ToLower protocol,
                      Sel = LbSelRr, Mode = 4, Security = 0, Name = ns @ ''_'' @ name,
                      Host = host\<rparr>
      in if epSelect = ''rr'' then service\<lparr>Sel := LbSelRr\<rparr>
         else if epSelect = ''hash'' then service\<lparr>Sel := LbSelHash\<rparr>
         else if epSelect = ''priority'' then service\<lparr>Sel := LbSelPrio\<rparr>
         else if epSelect = ''persist'' then service\<lparr>Sel := LbSelRrPersist\<rparr>
         else if epSelect = ''lc'' then service\<lparr>Sel := LbSelLeastConnections\<rparr>
         else if epSelect = ''n2'' then service\<lparr>Sel := LbSelN2\<rparr>
         else service\<lparr>Sel := LbSelRr\<rparr>)"

text \<open>
  \<^verbatim>\<open>strconv.Atoi\<close> and \<^verbatim>\<open>strconv.Itoa\<close> of the Go library, on a 64-bit platform: the value
  \<^verbatim>\<open>Atoi\<close> returns, which is 0 when the string is not a decimal number and the nearest
  bound when the number does not fit.
\<close>

definition isDigit :: "char \<Rightarrow> bool" where
  "isDigit ch = (48 \<le> (of_char ch :: nat) \<and> (of_char ch :: nat) \<le> 57)"

fun decValue :: "string \<Rightarrow> nat \<Rightarrow> nat" where
  "decValue [] n = n"
| "decValue (ch # chs) n = decValue chs (n * 10 + ((of_char ch :: nat) - 48))"

definition Atoi :: "string \<Rightarrow> int" where
  "Atoi str =
     (let neg = (str \<noteq> [] \<and> hd str = CHR ''-'');
          digits = (if str \<noteq> [] \<and> (hd str = CHR ''-'' \<or> hd str = CHR ''+'') then tl str else str)
      in if digits = [] \<or> \<not> list_all isDigit digits then 0
         else (let n = int (decValue digits 0);
                   v = (if neg then - n else n)
               in max (- (2 ^ 63)) (min (2 ^ 63 - 1) v)))"

function natDigits :: "nat \<Rightarrow> string" where
  "natDigits n =
     (if n < 10 then [char_of (48 + n)] else natDigits (n div 10) @ [char_of (48 + n mod 10)])"
  by pat_completeness auto
termination
  by (relation "measure id") auto

definition Itoa :: "int \<Rightarrow> string" where
  "Itoa i = (if i < 0 then CHR ''-'' # natDigits (nat (- i)) else natDigits (nat i))"

text \<open>\<^verbatim>\<open>IntOrString.IntValue()\<close> and \<^verbatim>\<open>IntOrString.String()\<close>.\<close>

fun IntValue :: "IntOrString \<Rightarrow> int" where
  "IntValue (IntVal i) = sint i"
| "IntValue (StrVal str) = Atoi str"

fun String :: "IntOrString \<Rightarrow> string" where
  "String (StrVal str) = str"
| "String (IntVal i) = Itoa (IntValue (IntVal i))"

text \<open>The three loops of \<^verbatim>\<open>GetServicePortIntValue\<close>: the first port of that name.\<close>

fun findInPorts :: "string \<Rightarrow> ContainerPort list \<Rightarrow> 32 word option" where
  "findInPorts name [] = None"
| "findInPorts name (p # ps) =
     (if cp_Name p = name then Some (cp_ContainerPort p) else findInPorts name ps)"

fun findInContainers :: "string \<Rightarrow> Container list \<Rightarrow> 32 word option" where
  "findInContainers name [] = None"
| "findInContainers name (c # cs) =
     (case findInPorts name (c_Ports c) of
        Some n \<Rightarrow> Some n
      | None \<Rightarrow> findInContainers name cs)"

fun findInPods :: "string \<Rightarrow> Pod list \<Rightarrow> 32 word option" where
  "findInPods name [] = None"
| "findInPods name (pod # pods) =
     (case findInContainers name (pod_Containers pod) of
        Some n \<Rightarrow> Some n
      | None \<Rightarrow> findInPods name pods)"

definition PortNameNotFound :: "string \<Rightarrow> string \<Rightarrow> go_error" where
  "PortNameNotFound portName svcName =
     Errorf (''not found port name '' @ portName @ '' in service '' @ svcName)"

definition GetServicePortIntValue ::
  "Client \<Rightarrow> corev1_Service \<Rightarrow> ServicePort \<Rightarrow> 32 word \<times> go_error option \<times> event list" where
  "GetServicePortIntValue k svc port =
     (if IntValue (sp_TargetPort port) \<noteq> 0
      then (word_of_int (IntValue (sp_TargetPort port)), None, [])
      else
        (case listPods k (svc_Selector svc) of
           Inl err \<Rightarrow> (0, Some err, [ListPods (svc_Selector svc)])
         | Inr podList \<Rightarrow>
             (case findInPods (String (sp_TargetPort port)) podList of
                Some n \<Rightarrow> (n, None, [ListPods (svc_Selector svc)])
              | None \<Rightarrow>
                  (0, Some (PortNameNotFound (String (sp_TargetPort port)) (svc_Name svc)),
                   [ListPods (svc_Selector svc)]))))"

text \<open>\<^verbatim>\<open>createDirectLoxiModelList\<close>: the loop over the ports of the service, then the function.\<close>

fun portsLoop ::
  "Client \<Rightarrow> Ingress \<Rightarrow> corev1_Service \<Rightarrow> string \<Rightarrow> string \<Rightarrow> string \<Rightarrow> ServicePort list
     \<Rightarrow> LoadBalancerModel list \<Rightarrow> event list
     \<Rightarrow> LoadBalancerModel list \<times> go_error option \<times> event list" where
  "portsLoop k ingress svc svcNs svcName selStr [] models evs = (models, None, evs)"
| "portsLoop k ingress svc svcNs svcName selStr (port # ports) models evs =
     (let protocol = sp_Protocol port;
          (targetPortNum, err, ev) = GetServicePortIntValue k svc port
      in case err of
           Some e \<Rightarrow> (models, Some e, evs @ ev)
         | None \<Rightarrow>
             (let loxisvc = createDirectLoxiLoadBalancerService svcNs (ing_Name ingress)
                              ''0.0.0.0'' protocol [] selStr (sp_Port port);
                  (loxiep, err', ev') =
                     createLoxiLoadBalancerEndpointsWithTargetPort k svcNs svcName targetPortNum
              in case err' of
                   Some e \<Rightarrow> (models, Some e, evs @ ev @ ev')
                 | None \<Rightarrow>
                     portsLoop k ingress svc svcNs svcName selStr ports
                       (models @ [\<lparr>Service = loxisvc, Endpoints = loxiep\<rparr>]) (evs @ ev @ ev')))"

definition createDirectLoxiModelList ::
  "Client \<Rightarrow> Ingress \<Rightarrow> LoadBalancerModel list \<times> go_error option \<times> event list" where
  "createDirectLoxiModelList k ingress =
     (case ing_Annotations ingress ''loxilb.io/direct-loadbalance-service'' of
        None \<Rightarrow>
          ([], Some (Errorf ''no service name is set in the ingress annotation for direct-loadbalance''), [])
      | Some svcName \<Rightarrow>
          (let svcNs = (case ing_Annotations ingress ''loxilb.io/direct-loadbalance-namespace'' of
                          Some v \<Rightarrow> v | None \<Rightarrow> ing_Namespace ingress);
               selStr = (case ing_Annotations ingress ''loxilb.io/epselect'' of
                           Some v \<Rightarrow> v | None \<Rightarrow> ''rr'');
               key = \<lparr>nn_Namespace = svcNs, nn_Name = svcName\<rparr>
           in case getService k key of
                Inl err \<Rightarrow> ([], Some err, [GetService key])
              | Inr svc \<Rightarrow>
                  portsLoop k ingress svc svcNs svcName selStr (svc_Ports svc) [] [GetService key]))"

subsection \<open>The differ\<close>

text \<open>
  The four nested loops of \<^verbatim>\<open>Reconcile\<close> that fill \<^verbatim>\<open>applyModels\<close>, innermost first:
  \<open>epMatchLoop\<close> computes \<^verbatim>\<open>epMatch\<close>, \<open>matchLoop\<close> computes \<^verbatim>\<open>match\<close>, \<open>itemsLoop\<close> says
  whether the loop over the snapshot reaches \<^verbatim>\<open>continue nextModel\<close>.
\<close>

fun epMatchLoop :: "LoadBalancerEndpoint \<Rightarrow> LoadBalancerEndpoint list \<Rightarrow> bool" where
  "epMatchLoop mep [] = False"
| "epMatchLoop mep (ep # eps) =
     (if EndpointIP mep = EndpointIP ep \<and> TargetPort mep = TargetPort ep then True
      else epMatchLoop mep eps)"

fun matchLoop :: "LoadBalancerEndpoint list \<Rightarrow> LoadBalancerEndpoint list \<Rightarrow> bool" where
  "matchLoop [] eps = True"
| "matchLoop (mep # meps) eps = (if \<not> epMatchLoop mep eps then False else matchLoop meps eps)"

fun itemsLoop :: "LoadBalancerModel \<Rightarrow> LoadBalancerModel list \<Rightarrow> bool" where
  "itemsLoop model [] = False"
| "itemsLoop model (lbItem # items) =
     (if Name (Service lbItem) = Name (Service model)
         \<and> length (Endpoints lbItem) = length (Endpoints model)
      then (if matchLoop (Endpoints model) (Endpoints lbItem) then True
            else itemsLoop model items)
      else itemsLoop model items)"

fun modelsLoop ::
  "LoadBalancerModel list \<Rightarrow> LoadBalancerModel list \<Rightarrow> LoadBalancerModel list
     \<Rightarrow> LoadBalancerModel list" where
  "modelsLoop [] items applyModels = applyModels"
| "modelsLoop (model # models) items applyModels =
     (if itemsLoop model items then modelsLoop models items applyModels
      else modelsLoop models items (applyModels @ [model]))"

subsection \<open>Applying the creates\<close>

fun applyLoop ::
  "'s LoxiClient \<Rightarrow> LoadBalancerModel list \<Rightarrow> 's \<Rightarrow> event list
     \<Rightarrow> go_error option \<times> 's \<times> event list" where
  "applyLoop c [] s evs = (None, s, evs)"
| "applyLoop c (model # models) s evs =
     (case lbCreate c model s of
        (None, s') \<Rightarrow> applyLoop c models s' (evs @ [LbCreate model])
      | (Some err, s') \<Rightarrow>
          (if Error err \<noteq> ''lbrule-exists error'' then (Some err, s', evs @ [LbCreate model])
           else applyLoop c models s' (evs @ [LbCreate model])))"

subsection \<open>The status reflector\<close>

fun existLoopStatus :: "IngressLoadBalancerIngress list \<Rightarrow> LoadBalancerIngress \<Rightarrow> bool" where
  "existLoopStatus [] serviceIngress = False"
| "existLoopStatus (i # is) serviceIngress =
     (if ilbi_IP i \<noteq> [] \<and> ilbi_IP i = lbi_IP serviceIngress then True
      else if ilbi_Hostname i \<noteq> [] \<and> ilbi_Hostname i = lbi_Hostname serviceIngress then True
      else existLoopStatus is serviceIngress)"

definition checkIngressLoadBalancerIngressExist :: "Ingress \<Rightarrow> LoadBalancerIngress \<Rightarrow> bool" where
  "checkIngressLoadBalancerIngressExist ingress serviceIngress =
     existLoopStatus (ing_Status ingress) serviceIngress"

fun portStatusLoop :: "PortStatus list \<Rightarrow> IngressPortStatus list \<Rightarrow> IngressPortStatus list" where
  "portStatusLoop [] acc = acc"
| "portStatusLoop (port # ports) acc =
     portStatusLoop ports
       (acc @ [\<lparr>ips_Port = ps_Port port, ips_Protocol = ps_Protocol port, ips_Error = ps_Error port\<rparr>])"

fun statusLoop :: "LoadBalancerIngress list \<Rightarrow> Ingress \<Rightarrow> Ingress" where
  "statusLoop [] ingress = ingress"
| "statusLoop (ing # ings) ingress =
     (if checkIngressLoadBalancerIngressExist ingress ing then statusLoop ings ingress
      else statusLoop ings
             (ingress\<lparr>ing_Status := ing_Status ingress @
                [\<lparr>ilbi_IP = lbi_IP ing, ilbi_Hostname = lbi_Hostname ing,
                  ilbi_Ports = portStatusLoop (lbi_Ports ing) []\<rparr>]\<rparr>))"

text \<open>Reading a Go map at a key it may lack: the empty string then.\<close>

definition annotation :: "Ingress \<Rightarrow> string \<Rightarrow> string" where
  "annotation ingress key = (case ing_Annotations ingress key of Some v \<Rightarrow> v | None \<Rightarrow> [])"

text \<open>
  \<^verbatim>\<open>updateIngressStatus\<close>: the key of the status source (\<open>None\<close> where the code returns
  \<^verbatim>\<open>nil\<close> at once), then the function, which returns the error and the ingress as it leaves it.
\<close>

definition statusSourceKey :: "Ingress \<Rightarrow> NamespacedName option" where
  "statusSourceKey ingress =
     (case ing_Annotations ingress ''gateway-api-controller'' of
        Some gwProvider \<Rightarrow>
          (if gwProvider = ''loxilb.io/loxilb''
           then Some \<lparr>nn_Namespace = annotation ingress ''parent-gateway-namespace'',
                      nn_Name = annotation ingress ''parent-gateway'' @ ''-ingress-service''\<rparr>
           else Some \<lparr>nn_Namespace = [], nn_Name = []\<rparr>)
      | None \<Rightarrow>
          (let lbNs = (case ing_Annotations ingress ''loadbalancer-service-namespace'' of
                         Some v \<Rightarrow> v | None \<Rightarrow> ''default'')
           in case ing_Annotations ingress ''loadbalancer-service'' of
                Some lbName \<Rightarrow> Some \<lparr>nn_Namespace = lbNs, nn_Name = lbName\<rparr>
              | None \<Rightarrow> None))"

definition updateIngressStatus :: "Client \<Rightarrow> Ingress \<Rightarrow> go_error option \<times> Ingress \<times> event list" where
  "updateIngressStatus k ingress =
     (case statusSourceKey ingress of
        None \<Rightarrow> (None, ingress, [])
      | Some lbSvcKey \<Rightarrow>
          (case getService k lbSvcKey of
             Inl err \<Rightarrow> (Some err, ingress, [GetService lbSvcKey])
           | Inr svc \<Rightarrow>
               (let ingress' = statusLoop (svc_Status svc) ingress
                in (statusUpdate k ingress', ingress', [GetService lbSvcKey, StatusUpdate ingress']))))"

subsection \<open>The reconciliation pass\<close>

text \<open>The loop of \<^verbatim>\<open>Reconcile\<close> that sets \<^verbatim>\<open>exist\<close> and \<^verbatim>\<open>existHTTPS\<close>.\<close>

fun existLoop :: "string \<Rightarrow> string \<Rightarrow> LoadBalancerModel list \<Rightarrow> bool \<times> bool \<Rightarrow> bool \<times> bool" where
  "existLoop ruleName ruleNameHTTPS [] (exist, existHTTPS) = (exist, existHTTPS)"
| "existLoop ruleName ruleNameHTTPS (lbItem # items) (exist, existHTTPS) =
     (if Name (Service lbItem) = ruleName
      then existLoop ruleName ruleNameHTTPS items (True, existHTTPS)
      else if Name (Service lbItem) = ruleNameHTTPS
      then existLoop ruleName ruleNameHTTPS items (exist, True)
      else existLoop ruleName ruleNameHTTPS items (exist, existHTTPS))"

text \<open>
  \<^verbatim>\<open>if exist { DeleteByName(ruleName) }\<close>: the answer of the remote store is only logged, in
  the branch of a deleted ingress and in the branch of a failed build alike.
\<close>

definition deleteIf :: "bool \<Rightarrow> 's LoxiClient \<Rightarrow> string \<Rightarrow> 's \<Rightarrow> 's \<times> event list" where
  "deleteIf b c name s =
     (if b then (snd (lbDeleteByName c name s), [LbDeleteByName name]) else (s, []))"

definition deleteBoth ::
  "bool \<Rightarrow> bool \<Rightarrow> 's LoxiClient \<Rightarrow> string \<Rightarrow> string \<Rightarrow> 's \<Rightarrow> 's \<times> event list" where
  "deleteBoth exist existHTTPS c ruleName ruleNameHTTPS s =
     (let (s', ev) = deleteIf exist c ruleName s;
          (s'', ev') = deleteIf existHTTPS c ruleNameHTTPS s'
      in (s'', ev @ ev'))"

text \<open>The choice of the builder in \<^verbatim>\<open>Reconcile\<close>, by the direct-service annotation.\<close>

definition buildModels ::
  "Client \<Rightarrow> string \<Rightarrow> Ingress \<Rightarrow> LoadBalancerModel list \<times> go_error option \<times> event list" where
  "buildModels k host ingress =
     (if ing_Annotations ingress ''loxilb.io/direct-loadbalance-service'' \<noteq> None
      then createDirectLoxiModelList k ingress
      else createLoxiModelList k host ingress)"

definition Reconcile ::
  "Client \<Rightarrow> 's LoxiClient \<Rightarrow> NamespacedName \<Rightarrow> 's
     \<Rightarrow> (ctrl_Result \<times> go_error option) \<times> 's \<times> event list" where
  "Reconcile k c req s =
     (let ruleName = nn_Namespace req @ ''_'' @ nn_Name req;
          ruleNameHTTPS = nn_Namespace req @ ''_'' @ nn_Name req @ ''_https''
      in case lbList c s of
           (Inl err, s1) \<Rightarrow> ((\<lparr>RequeueAfter = 0\<rparr>, Some err), s1, [LbList])
         | (Inr currLBList, s1) \<Rightarrow>
             (let (exist, existHTTPS) = existLoop ruleName ruleNameHTTPS currLBList (False, False)
              in case getIngress k req of
                   Inl err \<Rightarrow>
                     (if IsNotFound err
                      then (let (s2, ev) = deleteBoth exist existHTTPS c ruleName ruleNameHTTPS s1
                            in ((\<lparr>RequeueAfter = 0\<rparr>, None), s2, [LbList, GetIngress req] @ ev))
                      else ((\<lparr>RequeueAfter = 0\<rparr>, Some err), s1, [LbList, GetIngress req]))
                 | Inr ingress \<Rightarrow>
                     (let (models, err, bev) = buildModels k (lc_Host c) ingress
                      in case err of
                           Some e \<Rightarrow>
                             (let (s2, ev) = deleteBoth exist existHTTPS c ruleName ruleNameHTTPS s1
                              in ((\<lparr>RequeueAfter = 0\<rparr>, Some e), s2,
                                  [LbList, GetIngress req] @ bev @ ev))
                         | None \<Rightarrow>
                             (let applyModels = modelsLoop models currLBList []
                              in if length applyModels \<le> 0
                                 then ((\<lparr>RequeueAfter = 30 * Second\<rparr>, None), s1,
                                       [LbList, GetIngress req] @ bev)
                                 else
                                   (case applyLoop c applyModels s1 ([LbList, GetIngress req] @ bev) of
                                      (Some e, s2, evs) \<Rightarrow> ((\<lparr>RequeueAfter = 0\<rparr>, Some e), s2, evs)
                                    | (None, s2, evs) \<Rightarrow>
                                        (let (uerr, ingress', uev) = updateIngressStatus k ingress
                                         in ((\<lparr>RequeueAfter = 30 * Second\<rparr>, None), s2,
                                             evs @ uev)))))))"

subsection \<open>What the path-routed builder appends for one path\<close>

text \<open>
  The model that one turn of the loop over the paths appends: the backend has a service, its
  endpoints are found and have an address.
\<close>

definition builtFor ::
  "Client \<Rightarrow> string \<Rightarrow> Ingress \<Rightarrow> IngressRule \<Rightarrow> HTTPIngressPath \<Rightarrow> LoadBalancerModel \<Rightarrow> bool" where
  "builtFor k host ingress rule path m =
     (case ib_Service (hip_Backend path) of
        None \<Rightarrow> False
      | Some svc \<Rightarrow>
          (case getEndpoints k \<lparr>nn_Namespace = getBackendServiceNamespace ingress (isb_Name svc),
                                nn_Name = isb_Name svc\<rparr> of
             Inl err \<Rightarrow> False
           | Inr ep \<Rightarrow>
               Endpoints m = subsetsLoop (Subsets ep) (sbp_Number (isb_Port svc)) [] \<and>
               Endpoints m \<noteq> [] \<and>
               Service m =
                 (if checkTLSHost (ir_Host rule) (ing_TLS ingress)
                  then createLoxiLoadBalancerService (ing_Namespace ingress)
                         (ing_Name ingress @ ''_https'') host 1 (ir_Host rule)
                  else createLoxiLoadBalancerService (ing_Namespace ingress)
                         (ing_Name ingress) host 0 (ir_Host rule))))"

subsection \<open>The equality of rule models in the words of the spec\<close>



subsection \<open>A backend without ready addresses\<close>

text \<open>The Endpoints object of the backend is found and none of its subsets lists an address.\<close>

definition noAddresses :: "Client \<Rightarrow> NamespacedName \<Rightarrow> bool" where
  "noAddresses k key =
     (case getEndpoints k key of
        Inl err \<Rightarrow> False
      | Inr ep \<Rightarrow> (\<forall>sub\<in>set (Subsets ep). Addresses sub = []))"

subsection \<open>The backends of an ingress\<close>

text \<open>
  The service backends that the path-routed builder visits, in its order, each with its rule:
  the rules that have an HTTP section, their paths that have a service. For one of them: the
  key of its Endpoints object, whether the object is found and lists an address, the error that
  stops the builder otherwise, and the rule model the builder makes of it.
\<close>

definition pathBackends ::
  "IngressRule \<Rightarrow> HTTPIngressPath list \<Rightarrow> (IngressRule \<times> IngressServiceBackend) list" where
  "pathBackends rule paths =
     concat (map (\<lambda>path. case ib_Service (hip_Backend path) of
                             None \<Rightarrow> []
                           | Some svc \<Rightarrow> [(rule, svc)]) paths)"

definition ruleBackends :: "IngressRule list \<Rightarrow> (IngressRule \<times> IngressServiceBackend) list" where
  "ruleBackends rules =
     concat (map (\<lambda>rule. case ir_HTTP rule of
                             None \<Rightarrow> []
                           | Some http \<Rightarrow> pathBackends rule (Paths http)) rules)"

definition backendKey :: "Ingress \<Rightarrow> IngressRule \<times> IngressServiceBackend \<Rightarrow> NamespacedName" where
  "backendKey ingress b =
     \<lparr>nn_Namespace = getBackendServiceNamespace ingress (isb_Name (snd b)),
      nn_Name = isb_Name (snd b)\<rparr>"

definition readyBackend :: "Client \<Rightarrow> Ingress \<Rightarrow> IngressRule \<times> IngressServiceBackend \<Rightarrow> bool" where
  "readyBackend k ingress b =
     (case getEndpoints k (backendKey ingress b) of
        Inl err \<Rightarrow> False
      | Inr ep \<Rightarrow> (\<exists>sub\<in>set (Subsets ep). Addresses sub \<noteq> []))"

definition backendError :: "Client \<Rightarrow> Ingress \<Rightarrow> IngressRule \<times> IngressServiceBackend \<Rightarrow> go_error" where
  "backendError k ingress b =
     (case getEndpoints k (backendKey ingress b) of
        Inl err \<Rightarrow> err
      | Inr ep \<Rightarrow> NoReadyEndpoints (nn_Namespace (backendKey ingress b))
                   (nn_Name (backendKey ingress b)))"

definition modelFor ::
  "Client \<Rightarrow> string \<Rightarrow> Ingress \<Rightarrow> IngressRule \<times> IngressServiceBackend \<Rightarrow> LoadBalancerModel" where
  "modelFor k host ingress b =
     \<lparr>Service =
        (if checkTLSHost (ir_Host (fst b)) (ing_TLS ingress)
         then createLoxiLoadBalancerService (ing_Namespace ingress)
                (ing_Name ingress @ ''_https'') host 1 (ir_Host (fst b))
         else createLoxiLoadBalancerService (ing_Namespace ingress)
                (ing_Name ingress) host 0 (ir_Host (fst b))),
      Endpoints =
        (case getEndpoints k (backendKey ingress b) of
           Inl err \<Rightarrow> []
         | Inr ep \<Rightarrow>
             map (\<lambda>a. \<lparr>EndpointIP = ea_IP a,
                        TargetPort = ucast (sbp_Number (isb_Port (snd b))), Weight = 1\<rparr>)
               (concat (map Addresses (Subsets ep))))\<rparr>"

text \<open>
  The same object store with other port records: the ports of every subset of every Endpoints
  object are replaced.
\<close>

definition withPorts ::
  "(NamespacedName \<Rightarrow> EndpointSubset \<Rightarrow> EndpointPort list) \<Rightarrow> Client \<Rightarrow> Client" where
  "withPorts f k =
     k\<lparr>getEndpoints := \<lambda>key.
          (case getEndpoints k key of
             Inl err \<Rightarrow> Inl err
           | Inr ep \<Rightarrow> Inr (ep\<lparr>Subsets := map (\<lambda>sub. sub\<lparr>Ports := f key sub\<rparr>) (Subsets ep)\<rparr>))\<rparr>"

subsection \<open>Example objects\<close>

text \<open>
  An object store given by its objects (a missing object is answered by a not-found error,
  every selector selects the given pods, a status write succeeds), and a remote rule store
  whose state is the list of installed rules: \<open>List\<close> reports the given snapshot,
  \<open>Create\<close> answers as told and installs the rule when the answer is no error, and
  \<open>DeleteByName\<close> removes the rules of that name.
\<close>

definition notFound :: go_error where
  "notFound = GoError True ''not found''"

definition objectStore ::
  "(NamespacedName \<rightharpoonup> Ingress) \<Rightarrow> (NamespacedName \<rightharpoonup> Endpoints)
     \<Rightarrow> (NamespacedName \<rightharpoonup> corev1_Service) \<Rightarrow> Pod list \<Rightarrow> Client" where
  "objectStore ings eps svcs pods =
     \<lparr>getIngress = (\<lambda>key. case ings key of Some x \<Rightarrow> Inr x | None \<Rightarrow> Inl notFound),
      getEndpoints = (\<lambda>key. case eps key of Some x \<Rightarrow> Inr x | None \<Rightarrow> Inl notFound),
      getService = (\<lambda>key. case svcs key of Some x \<Rightarrow> Inr x | None \<Rightarrow> Inl notFound),
      listPods = (\<lambda>sel. Inr pods),
      statusUpdate = (\<lambda>ingress. None)\<rparr>"

definition remoteStore ::
  "string \<Rightarrow> LoadBalancerModel list \<Rightarrow> (LoadBalancerModel \<Rightarrow> go_error option)
     \<Rightarrow> (LoadBalancerModel list) LoxiClient" where
  "remoteStore host snapshot answer =
     \<lparr>lc_Host = host,
      lbList = (\<lambda>s. (Inr snapshot, s)),
      lbCreate = (\<lambda>model s. (answer model, if answer model = None then s @ [model] else s)),
      lbDeleteByName = (\<lambda>name s. (None, filter (\<lambda>m. Name (Service m) \<noteq> name) s))\<rparr>"

text \<open>The ingress \<^verbatim>\<open>ns/app\<close> and the backend \<^verbatim>\<open>svc:8080\<close> of the scenarios.\<close>

definition nsApp :: NamespacedName where
  "nsApp = \<lparr>nn_Namespace = ''ns'', nn_Name = ''app''\<rparr>"

definition nsSvc :: NamespacedName where
  "nsSvc = \<lparr>nn_Namespace = ''ns'', nn_Name = ''svc''\<rparr>"

definition svc8080 :: HTTPIngressPath where
  "svc8080 = \<lparr>hip_Path = ''/'',
               hip_Backend = \<lparr>ib_Service = Some \<lparr>isb_Name = ''svc'',
                  isb_Port = \<lparr>sbp_Name = [], sbp_Number = 8080\<rparr>\<rparr>\<rparr>\<rparr>"

definition hostRule :: "string \<Rightarrow> IngressRule" where
  "hostRule h = \<lparr>ir_Host = h, ir_HTTP = Some \<lparr>Paths = [svc8080]\<rparr>\<rparr>"

definition bareRule :: "string \<Rightarrow> IngressRule" where
  "bareRule h = \<lparr>ir_Host = h, ir_HTTP = None\<rparr>"

definition appIngress :: "IngressRule list \<Rightarrow> IngressTLS list \<Rightarrow> Ingress" where
  "appIngress rules tls =
     \<lparr>ing_Namespace = ''ns'', ing_Name = ''app'', ing_Annotations = Map.empty,
      ing_Rules = rules, ing_TLS = tls, ing_Status = []\<rparr>"

definition addressesAt :: "string list \<Rightarrow> 32 word list \<Rightarrow> Endpoints" where
  "addressesAt ips ports =
     \<lparr>Subsets = [\<lparr>Addresses = map (\<lambda>ip. \<lparr>ea_IP = ip\<rparr>) ips,
                   Ports = map (\<lambda>p. \<lparr>ep_Port = p\<rparr>) ports\<rparr>]\<rparr>"

definition appStore :: "Ingress \<Rightarrow> Endpoints \<Rightarrow> Client" where
  "appStore ingress eps = objectStore [nsApp \<mapsto> ingress] [nsSvc \<mapsto> eps] Map.empty []"

definition plainIngress :: Ingress where
  "plainIngress = appIngress [hostRule ''a.com''] []"

definition tlsIngress :: Ingress where
  "tlsIngress = appIngress [hostRule ''a.com'', hostRule ''b.com''] [\<lparr>tls_Hosts = [''a.com'']\<rparr>]"

text \<open>Rule models of the two identity keys of \<^verbatim>\<open>ns/app\<close> with given endpoints.\<close>

definition endpointAt :: "string \<Rightarrow> 16 word \<Rightarrow> LoadBalancerEndpoint" where
  "endpointAt ip port = \<lparr>EndpointIP = ip, TargetPort = port, Weight = 1\<rparr>"

definition plainRule :: "LoadBalancerEndpoint list \<Rightarrow> LoadBalancerModel" where
  "plainRule eps =
     \<lparr>Service = \<lparr>ExternalIP = ''1.2.3.4'', Port = 80, Protocol = ''tcp'', Sel = LbSelRr,
                  Mode = 4, Security = 0, Name = ''ns_app'', Host = ''a.com''\<rparr>,
      Endpoints = eps\<rparr>"

definition tlsRule :: "LoadBalancerEndpoint list \<Rightarrow> LoadBalancerModel" where
  "tlsRule eps =
     \<lparr>Service = \<lparr>ExternalIP = ''1.2.3.4'', Port = 443, Protocol = ''tcp'', Sel = LbSelRr,
                  Mode = 4, Security = 1, Name = ''ns_app_https'', Host = ''a.com''\<rparr>,
      Endpoints = eps\<rparr>"

text \<open>An Endpoints object that lists one address in two subsets.\<close>

definition twoSubsets :: Endpoints where
  "twoSubsets =
     \<lparr>Subsets = [\<lparr>Addresses = [\<lparr>ea_IP = ''10.0.0.5''\<rparr>], Ports = [\<lparr>ep_Port = 8080\<rparr>]\<rparr>,
                  \<lparr>Addresses = [\<lparr>ea_IP = ''10.0.0.5''\<rparr>], Ports = [\<lparr>ep_Port = 8443\<rparr>]\<rparr>]\<rparr>"

text \<open>
  An object store without objects, the endpoint of the scenarios, and a remote store that
  answers a create by the identity key of the rule.
\<close>

definition emptyStore :: Client where
  "emptyStore = objectStore Map.empty Map.empty Map.empty []"

definition ep5 :: "LoadBalancerEndpoint list" where
  "ep5 = [endpointAt ''10.0.0.5'' 8080]"

definition answerByName :: "(string \<rightharpoonup> string) \<Rightarrow> LoadBalancerModel \<Rightarrow> go_error option" where
  "answerByName msgs model = map_option (GoError False) (msgs (Name (Service model)))"

text \<open>The two rule models that the path-routed builder returns for \<open>tlsIngress\<close>.\<close>

definition tlsModelA :: LoadBalancerModel where
  "tlsModelA =
     \<lparr>Service = \<lparr>ExternalIP = ''1.2.3.4'', Port = 443, Protocol = ''tcp'', Sel = LbSelRr,
                  Mode = 4, Security = 1, Name = ''ns_app_https'', Host = ''a.com''\<rparr>,
      Endpoints = [\<lparr>EndpointIP = ''10.0.0.5'', TargetPort = 8080, Weight = 1\<rparr>]\<rparr>"

definition plainModelB :: LoadBalancerModel where
  "plainModelB =
     \<lparr>Service = \<lparr>ExternalIP = ''1.2.3.4'', Port = 80, Protocol = ''tcp'', Sel = LbSelRr,
                  Mode = 4, Security = 0, Name = ''ns_app'', Host = ''b.com''\<rparr>,
      Endpoints = [\<lparr>EndpointIP = ''10.0.0.5'', TargetPort = 8080, Weight = 1\<rparr>]\<rparr>"

definition tlsStore :: Client where
  "tlsStore = appStore tlsIngress (addressesAt [''10.0.0.5''] [8080])"

text \<open>The ingress \<open>plainIngress\<close> in a store where the backend has no address.\<close>

definition unreadyStore :: Client where
  "unreadyStore = appStore plainIngress (addressesAt [] [8080])"

text \<open>
  The ingress \<open>plainIngress\<close> with the status source \<^verbatim>\<open>default/lb\<close> and one recorded
  address; the service \<^verbatim>\<open>lb\<close> with the given addresses.
\<close>

definition defaultLb :: NamespacedName where
  "defaultLb = \<lparr>nn_Namespace = ''default'', nn_Name = ''lb''\<rparr>"

definition statusIngress :: Ingress where
  "statusIngress =
     plainIngress\<lparr>ing_Annotations := [''loadbalancer-service'' \<mapsto> ''lb''],
                  ing_Status := [\<lparr>ilbi_IP = ''192.168.0.10'', ilbi_Hostname = [], ilbi_Ports = []\<rparr>]\<rparr>"

definition lbService :: "string list \<Rightarrow> corev1_Service" where
  "lbService ips =
     \<lparr>svc_Name = ''lb'', svc_Ports = [], svc_Selector = Map.empty,
      svc_Status = map (\<lambda>ip. \<lparr>lbi_IP = ip, lbi_Hostname = [],
                             lbi_Ports = [\<lparr>ps_Port = 80, ps_Protocol = ''TCP'', ps_Error = None\<rparr>]\<rparr>) ips\<rparr>"

definition statusStore :: "string list \<Rightarrow> Client" where
  "statusStore ips =
     objectStore [nsApp \<mapsto> statusIngress] [nsSvc \<mapsto> addressesAt [''10.0.0.5''] [8080]]
       [defaultLb \<mapsto> lbService ips] []"

text \<open>
  The direct-service scenario: the ingress \<^verbatim>\<open>ns/app\<close> points at the service \<^verbatim>\<open>svc2\<close> of the
  namespace \<^verbatim>\<open>ns2\<close>, whose port 9090 has the named target port \<^verbatim>\<open>web\<close>; one pod has a
  container port of that name, 9090, and the service has one endpoint address.
\<close>

definition ns2Svc2 :: NamespacedName where
  "ns2Svc2 = \<lparr>nn_Namespace = ''ns2'', nn_Name = ''svc2''\<rparr>"

definition directIngress :: Ingress where
  "directIngress =
     \<lparr>ing_Namespace = ''ns'', ing_Name = ''app'',
      ing_Annotations = [''loxilb.io/direct-loadbalance-service'' \<mapsto> ''svc2'',
                         ''loxilb.io/direct-loadbalance-namespace'' \<mapsto> ''ns2''],
      ing_Rules = [], ing_TLS = [], ing_Status = []\<rparr>"

definition svc2 :: corev1_Service where
  "svc2 =
     \<lparr>svc_Name = ''svc2'',
      svc_Ports = [\<lparr>sp_Protocol = ''TCP'', sp_Port = 9090, sp_TargetPort = StrVal ''web''\<rparr>],
      svc_Selector = [''app'' \<mapsto> ''web''], svc_Status = []\<rparr>"

definition webPod :: Pod where
  "webPod = \<lparr>pod_Containers = [\<lparr>c_Ports = [\<lparr>cp_Name = ''web'', cp_ContainerPort = 9090\<rparr>]\<rparr>]\<rparr>"

definition directStore :: Client where
  "directStore =
     objectStore [nsApp \<mapsto> directIngress] [ns2Svc2 \<mapsto> addressesAt [''10.0.0.7''] [9090]]
       [ns2Svc2 \<mapsto> svc2] [webPod]"

definition directModel :: LoadBalancerModel where
  "directModel =
     \<lparr>Service = \<lparr>ExternalIP = ''0.0.0.0'', Port = 9090, Protocol = ''tcp'', Sel = LbSelRr,
                  Mode = 4, Security = 0, Name = ''ns2_app'', Host = []\<rparr>,
      Endpoints = [\<lparr>EndpointIP = ''10.0.0.7'', TargetPort = 9090, Weight = 1\<rparr>]\<rparr>"

section \<open>Properties\<close>

subsection \<open>The resolver and the path-routed builder\<close>

lemma addressesLoop_eq:
  "addressesLoop addrs p acc =
     acc @ map (\<lambda>a. \<lparr>EndpointIP = ea_IP a, TargetPort = ucast p, Weight = 1\<rparr>) addrs"
  by (induction addrs arbitrary: acc) simp_all

lemma subsetsLoop_eq:
  "subsetsLoop subsets p acc =
     acc @ map (\<lambda>a. \<lparr>EndpointIP = ea_IP a, TargetPort = ucast p, Weight = 1\<rparr>)
             (concat (map Addresses subsets))"
  by (induction subsets arbitrary: acc) (simp_all add: addressesLoop_eq)

lemma subsetsLoop_empty_iff:
  "subsetsLoop subsets p [] = [] \<longleftrightarrow> (\<forall>sub\<in>set subsets. Addresses sub = [])"
  by (simp add: subsetsLoop_eq)

lemma resolver_cases:
  "createLoxiLoadBalancerEndpointsWithTargetPort k ns name p =
     (case getEndpoints k \<lparr>nn_Namespace = ns, nn_Name = name\<rparr> of
        Inl err \<Rightarrow> ([], Some err, [GetEndpoints \<lparr>nn_Namespace = ns, nn_Name = name\<rparr>])
      | Inr ep \<Rightarrow>
          (subsetsLoop (Subsets ep) p [],
           if (\<forall>sub\<in>set (Subsets ep). Addresses sub = []) then Some (NoReadyEndpoints ns name) else None,
           [GetEndpoints \<lparr>nn_Namespace = ns, nn_Name = name\<rparr>]))"
  by (simp add: createLoxiLoadBalancerEndpointsWithTargetPort_def Let_def subsetsLoop_empty_iff
           split: sum.splits)

text \<open>One step of the loop over the paths, with the resolver unfolded.\<close>

lemma pathsLoop_Cons:
  "pathsLoop k host ing rule (path # paths) models evs =
     (case ib_Service (hip_Backend path) of
        None \<Rightarrow> pathsLoop k host ing rule paths models evs
      | Some svc \<Rightarrow>
          (case getEndpoints k \<lparr>nn_Namespace = getBackendServiceNamespace ing (isb_Name svc),
                                nn_Name = isb_Name svc\<rparr> of
             Inl e \<Rightarrow> (models, Some e,
                evs @ [GetEndpoints \<lparr>nn_Namespace = getBackendServiceNamespace ing (isb_Name svc),
                                      nn_Name = isb_Name svc\<rparr>])
           | Inr ep \<Rightarrow>
               (if \<forall>sub\<in>set (Subsets ep). Addresses sub = []
                then (models,
                      Some (NoReadyEndpoints (getBackendServiceNamespace ing (isb_Name svc)) (isb_Name svc)),
                      evs @ [GetEndpoints \<lparr>nn_Namespace = getBackendServiceNamespace ing (isb_Name svc),
                                      nn_Name = isb_Name svc\<rparr>])
                else pathsLoop k host ing rule paths
                       (models @
                        [\<lparr>Service =
                            (if checkTLSHost (ir_Host rule) (ing_TLS ing)
                             then createLoxiLoadBalancerService (ing_Namespace ing)
                                    (ing_Name ing @ ''_https'') host 1 (ir_Host rule)
                             else createLoxiLoadBalancerService (ing_Namespace ing)
                                    (ing_Name ing) host 0 (ir_Host rule)),
                          Endpoints = subsetsLoop (Subsets ep) (sbp_Number (isb_Port svc)) []\<rparr>])
                       (evs @ [GetEndpoints \<lparr>nn_Namespace = getBackendServiceNamespace ing (isb_Name svc),
                                      nn_Name = isb_Name svc\<rparr>]))))"
  by (cases "checkTLSHost (ir_Host rule) (ing_TLS ing)")
     (simp_all add: resolver_cases Let_def split: option.splits sum.splits)

lemma pathsLoop_models:
  "pathsLoop k host ing rule paths models evs = (models', err, evs') \<Longrightarrow>
   \<exists>new. models' = models @ new \<and> (\<forall>m\<in>set new. \<exists>path\<in>set paths. builtFor k host ing rule path m)"
proof (induction paths arbitrary: models evs)
  case Nil
  then show ?case by simp
next
  case (Cons path paths)
  show ?case
  proof (cases "ib_Service (hip_Backend path)")
    case None
    with Cons.prems have "pathsLoop k host ing rule paths models evs = (models', err, evs')"
      by (simp add: pathsLoop_Cons del: pathsLoop.simps)
    from Cons.IH[OF this] show ?thesis by auto
  next
    case (Some svc)
    let ?key = "\<lparr>nn_Namespace = getBackendServiceNamespace ing (isb_Name svc), nn_Name = isb_Name svc\<rparr>"
    show ?thesis
    proof (cases "getEndpoints k ?key")
      case (Inl e)
      with Cons.prems Some have "models' = models"
        by (simp add: pathsLoop_Cons del: pathsLoop.simps)
      then show ?thesis by simp
    next
      case (Inr ep)
      show ?thesis
      proof (cases "\<forall>sub\<in>set (Subsets ep). Addresses sub = []")
        case True
        with Cons.prems Some Inr have "models' = models"
          by (simp add: pathsLoop_Cons del: pathsLoop.simps)
        then show ?thesis by simp
      next
        case False
        define m where "m = \<lparr>Service =
                            (if checkTLSHost (ir_Host rule) (ing_TLS ing)
                             then createLoxiLoadBalancerService (ing_Namespace ing)
                                    (ing_Name ing @ ''_https'') host 1 (ir_Host rule)
                             else createLoxiLoadBalancerService (ing_Namespace ing)
                                    (ing_Name ing) host 0 (ir_Host rule)),
                          Endpoints = subsetsLoop (Subsets ep) (sbp_Number (isb_Port svc)) []\<rparr>"
        from Cons.prems Some Inr False
        have step: "pathsLoop k host ing rule paths (models @ [m])
                 (evs @ [GetEndpoints ?key]) = (models', err, evs')"
          by (simp add: pathsLoop_Cons m_def del: pathsLoop.simps)
        from Cons.IH[OF step] obtain new where
          new: "models' = (models @ [m]) @ new" and
          rest: "\<forall>x\<in>set new. \<exists>path\<in>set paths. builtFor k host ing rule path x"
          by blast
        have first: "builtFor k host ing rule path m"
          using Some Inr False by (simp add: builtFor_def m_def subsetsLoop_empty_iff)
        have "models' = models @ (m # new)" using new by simp
        moreover have "\<forall>x\<in>set (m # new). \<exists>path\<in>set (path # paths). builtFor k host ing rule path x"
          using first rest by auto
        ultimately show ?thesis by blast
      qed
    qed
  qed
qed

lemma pathsLoop_events:
  "pathsLoop k host ing rule paths models evs = (models', err, evs') \<Longrightarrow>
   \<exists>new. evs' = evs @ new \<and>
     (\<forall>e\<in>set new. \<exists>key. e = GetEndpoints key \<and>
        (\<forall>ep. getEndpoints k key = Inr ep \<longrightarrow> (\<forall>sub\<in>set (Subsets ep). Addresses sub = []) \<longrightarrow>
           err = Some (NoReadyEndpoints (nn_Namespace key) (nn_Name key))))"
proof (induction paths arbitrary: models evs)
  case Nil
  then show ?case by simp
next
  case (Cons path paths)
  show ?case
  proof (cases "ib_Service (hip_Backend path)")
    case None
    with Cons.prems have "pathsLoop k host ing rule paths models evs = (models', err, evs')"
      by (simp add: pathsLoop_Cons del: pathsLoop.simps)
    from Cons.IH[OF this] show ?thesis .
  next
    case (Some svc)
    let ?key = "\<lparr>nn_Namespace = getBackendServiceNamespace ing (isb_Name svc), nn_Name = isb_Name svc\<rparr>"
    show ?thesis
    proof (cases "getEndpoints k ?key")
      case (Inl e)
      with Cons.prems Some have "evs' = evs @ [GetEndpoints ?key]"
        by (simp add: pathsLoop_Cons del: pathsLoop.simps)
      with Inl show ?thesis by simp
    next
      case (Inr ep)
      show ?thesis
      proof (cases "\<forall>sub\<in>set (Subsets ep). Addresses sub = []")
        case True
        with Cons.prems Some Inr have "evs' = evs @ [GetEndpoints ?key]"
          and "err = Some (NoReadyEndpoints (nn_Namespace ?key) (nn_Name ?key))"
          by (simp_all add: pathsLoop_Cons del: pathsLoop.simps)
        then show ?thesis by simp
      next
        case False
        from Cons.prems Some Inr False
        obtain m where step: "pathsLoop k host ing rule paths (models @ [m])
                 (evs @ [GetEndpoints ?key]) = (models', err, evs')"
          by (simp add: pathsLoop_Cons del: pathsLoop.simps)
        from Cons.IH[OF step] obtain new where
          new: "evs' = (evs @ [GetEndpoints ?key]) @ new" and
          rest: "\<forall>e\<in>set new. \<exists>key. e = GetEndpoints key \<and>
        (\<forall>ep. getEndpoints k key = Inr ep \<longrightarrow> (\<forall>sub\<in>set (Subsets ep). Addresses sub = []) \<longrightarrow>
           err = Some (NoReadyEndpoints (nn_Namespace key) (nn_Name key)))"
          by blast
        have "evs' = evs @ (GetEndpoints ?key # new)" using new by simp
        moreover have "\<forall>e\<in>set (GetEndpoints ?key # new). \<exists>key. e = GetEndpoints key \<and>
        (\<forall>ep. getEndpoints k key = Inr ep \<longrightarrow> (\<forall>sub\<in>set (Subsets ep). Addresses sub = []) \<longrightarrow>
           err = Some (NoReadyEndpoints (nn_Namespace key) (nn_Name key)))"
          using rest Inr False by auto
        ultimately show ?thesis by blast
      qed
    qed
  qed
qed

lemma pathsLoop_error:
  "pathsLoop k host ing rule paths models evs = (models', Some e, evs') \<Longrightarrow>
   (\<exists>key. getEndpoints k key = Inl e) \<or> (\<exists>ns name. e = NoReadyEndpoints ns name)"
proof (induction paths arbitrary: models evs)
  case Nil
  then show ?case by simp
next
  case (Cons path paths)
  from Cons.prems show ?case
    by (auto simp: pathsLoop_Cons simp del: pathsLoop.simps
             split: option.splits sum.splits if_splits dest: Cons.IH)
qed

lemma rulesLoop_Cons:
  "rulesLoop k host ing (rule # rules) models evs =
     (case ir_HTTP rule of
        None \<Rightarrow> rulesLoop k host ing rules models evs
      | Some http \<Rightarrow>
          (case pathsLoop k host ing rule (Paths http) models evs of
             (models', err, evs') \<Rightarrow>
               (if err = None then rulesLoop k host ing rules models' evs' else (models', err, evs'))))"
  by (auto split: option.splits prod.splits)

lemma rulesLoop_models:
  "rulesLoop k host ing rules models evs = (models', err, evs') \<Longrightarrow>
   \<exists>new. models' = models @ new \<and>
     (\<forall>m\<in>set new. \<exists>rule\<in>set rules. \<exists>http. ir_HTTP rule = Some http \<and>
        (\<exists>path\<in>set (Paths http). builtFor k host ing rule path m))"
proof (induction rules arbitrary: models evs)
  case Nil
  then show ?case by simp
next
  case (Cons rule rules)
  show ?case
  proof (cases "ir_HTTP rule")
    case None
    with Cons.prems have "rulesLoop k host ing rules models evs = (models', err, evs')"
      by simp
    from Cons.IH[OF this] show ?thesis by auto
  next
    case (Some http)
    obtain ms er es where pl: "pathsLoop k host ing rule (Paths http) models evs = (ms, er, es)"
      by (cases "pathsLoop k host ing rule (Paths http) models evs") auto
    from pathsLoop_models[OF pl] obtain new1 where
      n1: "ms = models @ new1" and
      b1: "\<forall>m\<in>set new1. \<exists>path\<in>set (Paths http). builtFor k host ing rule path m"
      by blast
    show ?thesis
    proof (cases er)
      case (Some e)
      with Cons.prems \<open>ir_HTTP rule = Some http\<close> pl have "models' = ms"
        by (simp add: rulesLoop_Cons del: rulesLoop.simps)
      with n1 b1 \<open>ir_HTTP rule = Some http\<close> show ?thesis by auto
    next
      case None
      with Cons.prems \<open>ir_HTTP rule = Some http\<close> pl
      have "rulesLoop k host ing rules ms es = (models', err, evs')"
        by (simp add: rulesLoop_Cons del: rulesLoop.simps)
      from Cons.IH[OF this] obtain new2 where
        n2: "models' = ms @ new2" and
        b2: "\<forall>m\<in>set new2. \<exists>rule\<in>set rules. \<exists>http. ir_HTTP rule = Some http \<and>
               (\<exists>path\<in>set (Paths http). builtFor k host ing rule path m)"
        by blast
      have "models' = models @ (new1 @ new2)" using n1 n2 by simp
      moreover have "\<forall>m\<in>set (new1 @ new2). \<exists>r\<in>set (rule # rules). \<exists>http. ir_HTTP r = Some http \<and>
               (\<exists>path\<in>set (Paths http). builtFor k host ing r path m)"
        using b1 b2 \<open>ir_HTTP rule = Some http\<close> by auto
      ultimately show ?thesis by blast
    qed
  qed
qed

lemma rulesLoop_events:
  "rulesLoop k host ing rules models evs = (models', err, evs') \<Longrightarrow>
   \<exists>new. evs' = evs @ new \<and>
     (\<forall>e\<in>set new. \<exists>key. e = GetEndpoints key \<and>
        (\<forall>ep. getEndpoints k key = Inr ep \<longrightarrow> (\<forall>sub\<in>set (Subsets ep). Addresses sub = []) \<longrightarrow>
           err = Some (NoReadyEndpoints (nn_Namespace key) (nn_Name key))))"
proof (induction rules arbitrary: models evs)
  case Nil
  then show ?case by simp
next
  case (Cons rule rules)
  show ?case
  proof (cases "ir_HTTP rule")
    case None
    with Cons.prems have "rulesLoop k host ing rules models evs = (models', err, evs')"
      by simp
    from Cons.IH[OF this] show ?thesis .
  next
    case (Some http)
    obtain ms er es where pl: "pathsLoop k host ing rule (Paths http) models evs = (ms, er, es)"
      by (cases "pathsLoop k host ing rule (Paths http) models evs") auto
    from pathsLoop_events[OF pl] obtain new1 where
      n1: "es = evs @ new1" and
      b1: "\<forall>e\<in>set new1. \<exists>key. e = GetEndpoints key \<and>
        (\<forall>ep. getEndpoints k key = Inr ep \<longrightarrow> (\<forall>sub\<in>set (Subsets ep). Addresses sub = []) \<longrightarrow>
           er = Some (NoReadyEndpoints (nn_Namespace key) (nn_Name key)))"
      by blast
    show ?thesis
    proof (cases er)
      case (Some e)
      with Cons.prems \<open>ir_HTTP rule = Some http\<close> pl have "evs' = es" "err = er"
        by (simp_all add: rulesLoop_Cons del: rulesLoop.simps)
      with n1 b1 show ?thesis by auto
    next
      case None
      with Cons.prems \<open>ir_HTTP rule = Some http\<close> pl
      have "rulesLoop k host ing rules ms es = (models', err, evs')"
        by (simp add: rulesLoop_Cons del: rulesLoop.simps)
      from Cons.IH[OF this] obtain new2 where
        n2: "evs' = es @ new2" and
        b2: "\<forall>e\<in>set new2. \<exists>key. e = GetEndpoints key \<and>
        (\<forall>ep. getEndpoints k key = Inr ep \<longrightarrow> (\<forall>sub\<in>set (Subsets ep). Addresses sub = []) \<longrightarrow>
           err = Some (NoReadyEndpoints (nn_Namespace key) (nn_Name key)))"
        by blast
      have b1': "\<forall>e\<in>set new1. \<exists>key. e = GetEndpoints key \<and>
        (\<forall>ep. getEndpoints k key = Inr ep \<longrightarrow> \<not> (\<forall>sub\<in>set (Subsets ep). Addresses sub = []))"
        using b1 None by auto
      have "evs' = evs @ (new1 @ new2)" using n1 n2 by simp
      moreover have "\<forall>e\<in>set (new1 @ new2). \<exists>key. e = GetEndpoints key \<and>
        (\<forall>ep. getEndpoints k key = Inr ep \<longrightarrow> (\<forall>sub\<in>set (Subsets ep). Addresses sub = []) \<longrightarrow>
           err = Some (NoReadyEndpoints (nn_Namespace key) (nn_Name key)))"
        using b1' b2 by (metis Un_iff set_append)
      ultimately show ?thesis by blast
    qed
  qed
qed

lemma rulesLoop_error:
  "rulesLoop k host ing rules models evs = (models', Some e, evs') \<Longrightarrow>
   (\<exists>key. getEndpoints k key = Inl e) \<or> (\<exists>ns name. e = NoReadyEndpoints ns name)"
proof (induction rules arbitrary: models evs)
  case Nil
  then show ?case by simp
next
  case (Cons rule rules)
  from Cons.prems show ?case
    by (auto simp: rulesLoop_Cons simp del: rulesLoop.simps
             split: option.splits prod.splits if_splits dest: Cons.IH pathsLoop_error)
qed

subsection \<open>Evaluating the examples\<close>

lemmas fixture_defs = notFound_def objectStore_def remoteStore_def nsApp_def nsSvc_def svc8080_def
  hostRule_def bareRule_def appIngress_def addressesAt_def appStore_def plainIngress_def
  tlsIngress_def endpointAt_def plainRule_def tlsRule_def twoSubsets_def emptyStore_def
  ep5_def answerByName_def

lemmas builder_defs = createLoxiModelList_def createLoxiLoadBalancerEndpointsWithTargetPort_def
  createLoxiLoadBalancerService_def getBackendServiceNamespace_def

subsection \<open>The rule models of the path-routed builder\<close>

lemma createLoxiModelList_models:
  "\<forall>m\<in>set (fst (createLoxiModelList k host ingress)).
     \<exists>rule\<in>set (ing_Rules ingress). \<exists>http. ir_HTTP rule = Some http \<and>
        (\<exists>path\<in>set (Paths http). builtFor k host ingress rule path m)"
proof -
  obtain models err evs where r: "rulesLoop k host ingress (ing_Rules ingress) [] [] = (models, err, evs)"
    by (cases "rulesLoop k host ingress (ing_Rules ingress) [] []") auto
  from rulesLoop_models[OF r] show ?thesis
    by (simp add: createLoxiModelList_def r)
qed

lemma builtFor_service:
  "builtFor k host ingress rule path m \<Longrightarrow>
     Host (Service m) = ir_Host rule \<and>
     Service m = createLoxiLoadBalancerService (ing_Namespace ingress)
        (if checkTLSHost (ir_Host rule) (ing_TLS ingress) then ing_Name ingress @ ''_https''
         else ing_Name ingress)
        host (if checkTLSHost (ir_Host rule) (ing_TLS ingress) then 1 else 0) (ir_Host rule)"
  by (auto simp: builtFor_def createLoxiLoadBalancerService_def split: option.splits sum.splits if_splits)

text \<open>
  C4. In path-routed mode every rule model the builder produces (also those collected before an
  error stopped it) has one of the two identity keys of its ingress: the key with the suffix
  \<^verbatim>\<open>_https\<close> when the host of the model is a host of a TLS binding, the plain key otherwise.
  So all hosts of one security class share a key and no third key appears.
\<close>

theorem C4_identity_keys:
  "(\<forall>m\<in>set (fst (createLoxiModelList k host ingress)).
      Name (Service m) =
        (if checkTLSHost (Host (Service m)) (ing_TLS ingress)
         then ing_Namespace ingress @ ''_'' @ ing_Name ingress @ ''_https''
         else ing_Namespace ingress @ ''_'' @ ing_Name ingress)) \<and>
   (\<lambda>m. Name (Service m)) ` set (fst (createLoxiModelList k host ingress))
      \<subseteq> {ing_Namespace ingress @ ''_'' @ ing_Name ingress,
          ing_Namespace ingress @ ''_'' @ ing_Name ingress @ ''_https''}"
proof -
  have key: "Name (Service m) =
        (if checkTLSHost (Host (Service m)) (ing_TLS ingress)
         then ing_Namespace ingress @ ''_'' @ ing_Name ingress @ ''_https''
         else ing_Namespace ingress @ ''_'' @ ing_Name ingress)"
    if "m \<in> set (fst (createLoxiModelList k host ingress))" for m
  proof -
    from that createLoxiModelList_models obtain rule path where
      "builtFor k host ingress rule path m" by blast
    from builtFor_service[OF this] show ?thesis
      by (auto simp: createLoxiLoadBalancerService_def split: if_splits)
  qed
  then show ?thesis by auto
qed

lemma tlsIngress_models:
  "fst (createLoxiModelList (appStore tlsIngress (addressesAt [''10.0.0.5''] [8080])) ''1.2.3.4'' tlsIngress) =
     [\<lparr>Service = \<lparr>ExternalIP = ''1.2.3.4'', Port = 443, Protocol = ''tcp'', Sel = LbSelRr,
                   Mode = 4, Security = 1, Name = ''ns_app_https'', Host = ''a.com''\<rparr>,
       Endpoints = [\<lparr>EndpointIP = ''10.0.0.5'', TargetPort = 8080, Weight = 1\<rparr>]\<rparr>,
      \<lparr>Service = \<lparr>ExternalIP = ''1.2.3.4'', Port = 80, Protocol = ''tcp'', Sel = LbSelRr,
                   Mode = 4, Security = 0, Name = ''ns_app'', Host = ''b.com''\<rparr>,
       Endpoints = [\<lparr>EndpointIP = ''10.0.0.5'', TargetPort = 8080, Weight = 1\<rparr>]\<rparr>]"
  by (simp add: builder_defs fixture_defs)

theorem C4_identity_keys_witness:
  "map (\<lambda>m. Name (Service m))
      (fst (createLoxiModelList (appStore tlsIngress (addressesAt [''10.0.0.5''] [8080]))
              ''1.2.3.4'' tlsIngress)) = [''ns_app_https'', ''ns_app''] \<and>
   (\<lambda>m. Name (Service m)) `
      set (fst (createLoxiModelList (appStore tlsIngress (addressesAt [''10.0.0.5''] [8080]))
                  ''1.2.3.4'' tlsIngress))
      \<subseteq> {ing_Namespace tlsIngress @ ''_'' @ ing_Name tlsIngress,
          ing_Namespace tlsIngress @ ''_'' @ ing_Name tlsIngress @ ''_https''}"
  using C4_identity_keys [of "appStore tlsIngress (addressesAt [''10.0.0.5''] [8080])" "''1.2.3.4''" tlsIngress]
  by (simp add: tlsIngress_models)

text \<open>
  C8. Every rule model of the path-routed builder is exposed at port 80 when its security flag
  is unset and at port 443 when it is set; the flag is 0 or 1, and the port of the backend
  service plays no part.
\<close>

theorem C8_exposed_port:
  "\<forall>m\<in>set (fst (createLoxiModelList k host ingress)).
      (Security (Service m) = 0 \<longrightarrow> Port (Service m) = 80) \<and>
      (Security (Service m) \<noteq> 0 \<longrightarrow> Port (Service m) = 443) \<and>
      Security (Service m) = (if checkTLSHost (Host (Service m)) (ing_TLS ingress) then 1 else 0)"
proof
  fix m assume "m \<in> set (fst (createLoxiModelList k host ingress))"
  with createLoxiModelList_models obtain rule path where
    "builtFor k host ingress rule path m" by blast
  from builtFor_service[OF this]
  show "(Security (Service m) = 0 \<longrightarrow> Port (Service m) = 80) \<and>
      (Security (Service m) \<noteq> 0 \<longrightarrow> Port (Service m) = 443) \<and>
      Security (Service m) = (if checkTLSHost (Host (Service m)) (ing_TLS ingress) then 1 else 0)"
    by (auto simp: createLoxiLoadBalancerService_def split: if_splits)
qed

theorem C8_exposed_port_witness:
  "map (\<lambda>m. (Security (Service m), Port (Service m)))
      (fst (createLoxiModelList (appStore tlsIngress (addressesAt [''10.0.0.5''] [8080]))
                  ''1.2.3.4'' tlsIngress)) = [(1, 443), (0, 80)]"
  using C8_exposed_port [of "appStore tlsIngress (addressesAt [''10.0.0.5''] [8080])" "''1.2.3.4''" tlsIngress]
  by (simp add: tlsIngress_models)

subsection \<open>Rules without an HTTP section\<close>

lemma rulesLoop_append:
  "rulesLoop k host ing (pre @ post) models evs =
     (case rulesLoop k host ing pre models evs of
        (models', None, evs') \<Rightarrow> rulesLoop k host ing post models' evs'
      | (models', Some e, evs') \<Rightarrow> (models', Some e, evs'))"
proof (induction pre arbitrary: models evs)
  case Nil
  then show ?case by simp
next
  case (Cons rule pre)
  show ?case
  proof (cases "ir_HTTP rule")
    case None
    then show ?thesis by (simp add: Cons.IH)
  next
    case (Some http)
    obtain ms er es where pl: "pathsLoop k host ing rule (Paths http) models evs = (ms, er, es)"
      by (cases "pathsLoop k host ing rule (Paths http) models evs") auto
    show ?thesis
      by (cases er) (simp_all add: Some pl Cons.IH)
  qed
qed

lemma pathsLoop_rules_update:
  "pathsLoop k host (ing\<lparr>ing_Rules := rs\<rparr>) rule paths models evs =
   pathsLoop k host ing rule paths models evs"
  by (induction paths arbitrary: models evs)
     (simp_all add: pathsLoop_Cons getBackendServiceNamespace_def del: pathsLoop.simps(2)
        split: option.splits sum.splits)

lemma rulesLoop_rules_update:
  "rulesLoop k host (ing\<lparr>ing_Rules := rs\<rparr>) rules models evs =
   rulesLoop k host ing rules models evs"
  by (induction rules arbitrary: models evs)
     (simp_all add: pathsLoop_rules_update split: option.splits prod.splits)

text \<open>
  C10. A rule of the ingress without an HTTP section is passed over by the path-routed builder:
  the builder returns the same models, the same error or none, and makes the same calls as for
  the ingress without that rule, so the rules before and after it are processed as usual; an
  ingress that has only such rules gives no model and no error.
\<close>

theorem C10_rule_without_http_skipped:
  "(ir_HTTP rule = None \<longrightarrow>
      createLoxiModelList k host (ingress\<lparr>ing_Rules := pre @ rule # post\<rparr>) =
      createLoxiModelList k host (ingress\<lparr>ing_Rules := pre @ post\<rparr>)) \<and>
   ((\<forall>r\<in>set (ing_Rules ingress). ir_HTTP r = None) \<longrightarrow>
      createLoxiModelList k host ingress = ([], None, []))"
proof (intro conjI impI)
  assume none: "ir_HTTP rule = None"
  have "rulesLoop k host ingress (pre @ rule # post) [] [] = rulesLoop k host ingress (pre @ post) [] []"
    by (simp add: rulesLoop_append[of k host ingress pre] none split: prod.splits option.splits)
  then show "createLoxiModelList k host (ingress\<lparr>ing_Rules := pre @ rule # post\<rparr>) =
      createLoxiModelList k host (ingress\<lparr>ing_Rules := pre @ post\<rparr>)"
    by (simp add: createLoxiModelList_def rulesLoop_rules_update)
next
  assume all: "\<forall>r\<in>set (ing_Rules ingress). ir_HTTP r = None"
  have "(\<forall>r\<in>set rules. ir_HTTP r = None) \<Longrightarrow> rulesLoop k host ingress rules ms es = (ms, None, es)"
    for rules ms es
    by (induction rules) simp_all
  with all show "createLoxiModelList k host ingress = ([], None, [])"
    by (simp add: createLoxiModelList_def)
qed

lemma bare_rule_models:
  "createLoxiModelList (appStore plainIngress (addressesAt [''10.0.0.5''] [8080])) ''1.2.3.4''
      (plainIngress\<lparr>ing_Rules := [] @ [hostRule ''a.com'']\<rparr>) =
     ([\<lparr>Service = \<lparr>ExternalIP = ''1.2.3.4'', Port = 80, Protocol = ''tcp'', Sel = LbSelRr,
                   Mode = 4, Security = 0, Name = ''ns_app'', Host = ''a.com''\<rparr>,
       Endpoints = [\<lparr>EndpointIP = ''10.0.0.5'', TargetPort = 8080, Weight = 1\<rparr>]\<rparr>],
      None, [GetEndpoints nsSvc])"
  by (simp add: builder_defs fixture_defs)

theorem C10_rule_without_http_skipped_witness:
  "ir_HTTP (bareRule ''b.com'') = None \<and>
   createLoxiModelList (appStore plainIngress (addressesAt [''10.0.0.5''] [8080])) ''1.2.3.4''
      (plainIngress\<lparr>ing_Rules := [] @ bareRule ''b.com'' # [hostRule ''a.com'']\<rparr>) =
     ([\<lparr>Service = \<lparr>ExternalIP = ''1.2.3.4'', Port = 80, Protocol = ''tcp'', Sel = LbSelRr,
                   Mode = 4, Security = 0, Name = ''ns_app'', Host = ''a.com''\<rparr>,
       Endpoints = [\<lparr>EndpointIP = ''10.0.0.5'', TargetPort = 8080, Weight = 1\<rparr>]\<rparr>],
      None, [GetEndpoints nsSvc]) \<and>
   createLoxiModelList emptyStore ''1.2.3.4'' (appIngress [bareRule ''b.com''] []) = ([], None, [])"
proof -
  have h: "ir_HTTP (bareRule ''b.com'') = None"
    by (simp add: bareRule_def)
  from C10_rule_without_http_skipped
         [where rule = "bareRule ''b.com''"
            and k = "appStore plainIngress (addressesAt [''10.0.0.5''] [8080])"
            and host = "''1.2.3.4''" and ingress = plainIngress and pre = "[]"
            and post = "[hostRule ''a.com'']"] h
  have "createLoxiModelList (appStore plainIngress (addressesAt [''10.0.0.5''] [8080])) ''1.2.3.4''
          (plainIngress\<lparr>ing_Rules := [] @ bareRule ''b.com'' # [hostRule ''a.com'']\<rparr>) =
        createLoxiModelList (appStore plainIngress (addressesAt [''10.0.0.5''] [8080])) ''1.2.3.4''
          (plainIngress\<lparr>ing_Rules := [] @ [hostRule ''a.com'']\<rparr>)"
    by blast
  then have one: "createLoxiModelList (appStore plainIngress (addressesAt [''10.0.0.5''] [8080])) ''1.2.3.4''
      (plainIngress\<lparr>ing_Rules := [] @ bareRule ''b.com'' # [hostRule ''a.com'']\<rparr>) =
     ([\<lparr>Service = \<lparr>ExternalIP = ''1.2.3.4'', Port = 80, Protocol = ''tcp'', Sel = LbSelRr,
                   Mode = 4, Security = 0, Name = ''ns_app'', Host = ''a.com''\<rparr>,
       Endpoints = [\<lparr>EndpointIP = ''10.0.0.5'', TargetPort = 8080, Weight = 1\<rparr>]\<rparr>],
      None, [GetEndpoints nsSvc])"
    by (simp only: bare_rule_models)
  have all: "\<forall>r\<in>set (ing_Rules (appIngress [bareRule ''b.com''] [])). ir_HTTP r = None"
    by (simp add: appIngress_def bareRule_def)
  from C10_rule_without_http_skipped
         [where k = emptyStore and host = "''1.2.3.4''"
            and ingress = "appIngress [bareRule ''b.com''] []"] all
  have two: "createLoxiModelList emptyStore ''1.2.3.4'' (appIngress [bareRule ''b.com''] []) =
      ([], None, [])"
    by blast
  from h one two show ?thesis by blast
qed

subsection \<open>The target port of the endpoints\<close>

lemma builtFor_endpoints:
  "builtFor k host ingress rule path m \<Longrightarrow>
   \<exists>svc ep. ib_Service (hip_Backend path) = Some svc \<and>
      getEndpoints k \<lparr>nn_Namespace = getBackendServiceNamespace ingress (isb_Name svc),
                      nn_Name = isb_Name svc\<rparr> = Inr ep \<and>
      Endpoints m \<noteq> [] \<and>
      Endpoints m =
        map (\<lambda>a. \<lparr>EndpointIP = ea_IP a, TargetPort = ucast (sbp_Number (isb_Port svc)), Weight = 1\<rparr>)
          (concat (map Addresses (Subsets ep)))"
  by (auto simp: builtFor_def subsetsLoop_eq split: option.splits sum.splits)

text \<open>
  Where the endpoints of the models come from, which errors the builder returns, and that the
  resolver does not depend on the port records.
\<close>

lemma builder_declared_port:
  "(\<forall>m\<in>set (fst (createLoxiModelList k host ingress)).
      \<exists>rule\<in>set (ing_Rules ingress). \<exists>http. ir_HTTP rule = Some http \<and>
        (\<exists>path\<in>set (Paths http). \<exists>svc ep.
            ib_Service (hip_Backend path) = Some svc \<and>
            getEndpoints k \<lparr>nn_Namespace = getBackendServiceNamespace ingress (isb_Name svc),
                            nn_Name = isb_Name svc\<rparr> = Inr ep \<and>
            Endpoints m =
              map (\<lambda>a. \<lparr>EndpointIP = ea_IP a, TargetPort = ucast (sbp_Number (isb_Port svc)),
                         Weight = 1\<rparr>)
                (concat (map Addresses (Subsets ep))))) \<and>
   (\<forall>e. fst (snd (createLoxiModelList k host ingress)) = Some e \<longrightarrow>
      (\<exists>key. getEndpoints k key = Inl e) \<or> (\<exists>ns name. e = NoReadyEndpoints ns name)) \<and>
   (\<forall>ep f. createLoxiLoadBalancerEndpointsWithTargetPort
              (k\<lparr>getEndpoints := \<lambda>key. Inr (ep\<lparr>Subsets := map (\<lambda>sub. sub\<lparr>Ports := f sub\<rparr>) (Subsets ep)\<rparr>)\<rparr>)
              ns name targetPort =
           createLoxiLoadBalancerEndpointsWithTargetPort (k\<lparr>getEndpoints := \<lambda>key. Inr ep\<rparr>)
              ns name targetPort)"
proof (intro conjI)
  show "\<forall>m\<in>set (fst (createLoxiModelList k host ingress)).
      \<exists>rule\<in>set (ing_Rules ingress). \<exists>http. ir_HTTP rule = Some http \<and>
        (\<exists>path\<in>set (Paths http). \<exists>svc ep.
            ib_Service (hip_Backend path) = Some svc \<and>
            getEndpoints k \<lparr>nn_Namespace = getBackendServiceNamespace ingress (isb_Name svc),
                            nn_Name = isb_Name svc\<rparr> = Inr ep \<and>
            Endpoints m =
              map (\<lambda>a. \<lparr>EndpointIP = ea_IP a, TargetPort = ucast (sbp_Number (isb_Port svc)),
                         Weight = 1\<rparr>)
                (concat (map Addresses (Subsets ep))))"
  proof
    fix m assume "m \<in> set (fst (createLoxiModelList k host ingress))"
    with createLoxiModelList_models obtain rule http path where
      r: "rule \<in> set (ing_Rules ingress)" "ir_HTTP rule = Some http" "path \<in> set (Paths http)"
      and b: "builtFor k host ingress rule path m"
      by blast
    from builtFor_endpoints[OF b] r
    show "\<exists>rule\<in>set (ing_Rules ingress). \<exists>http. ir_HTTP rule = Some http \<and>
        (\<exists>path\<in>set (Paths http). \<exists>svc ep.
            ib_Service (hip_Backend path) = Some svc \<and>
            getEndpoints k \<lparr>nn_Namespace = getBackendServiceNamespace ingress (isb_Name svc),
                            nn_Name = isb_Name svc\<rparr> = Inr ep \<and>
            Endpoints m =
              map (\<lambda>a. \<lparr>EndpointIP = ea_IP a, TargetPort = ucast (sbp_Number (isb_Port svc)),
                         Weight = 1\<rparr>)
                (concat (map Addresses (Subsets ep))))"
      by blast
  qed
next
  show "\<forall>e. fst (snd (createLoxiModelList k host ingress)) = Some e \<longrightarrow>
      (\<exists>key. getEndpoints k key = Inl e) \<or> (\<exists>ns name. e = NoReadyEndpoints ns name)"
  proof (intro allI impI)
    fix e assume e: "fst (snd (createLoxiModelList k host ingress)) = Some e"
    obtain models evs where "rulesLoop k host ingress (ing_Rules ingress) [] [] = (models, Some e, evs)"
      using e by (cases "rulesLoop k host ingress (ing_Rules ingress) [] []")
                 (auto simp: createLoxiModelList_def)
    from rulesLoop_error[OF this]
    show "(\<exists>key. getEndpoints k key = Inl e) \<or> (\<exists>ns name. e = NoReadyEndpoints ns name)" .
  qed
next
  show "\<forall>ep f. createLoxiLoadBalancerEndpointsWithTargetPort
              (k\<lparr>getEndpoints := \<lambda>key. Inr (ep\<lparr>Subsets := map (\<lambda>sub. sub\<lparr>Ports := f sub\<rparr>) (Subsets ep)\<rparr>)\<rparr>)
              ns name targetPort =
           createLoxiLoadBalancerEndpointsWithTargetPort (k\<lparr>getEndpoints := \<lambda>key. Inr ep\<rparr>)
              ns name targetPort"
    by (simp add: resolver_cases subsetsLoop_eq comp_def)
qed

lemma pathsLoop_withPorts:
  "pathsLoop (withPorts f k) host ing rule paths models evs =
   pathsLoop k host ing rule paths models evs"
proof (induction paths arbitrary: models evs)
  case Nil
  show ?case by simp
next
  case (Cons path paths)
  show ?case
  proof (cases "ib_Service (hip_Backend path)")
    case None
    then show ?thesis by (simp add: pathsLoop_Cons Cons.IH del: pathsLoop.simps)
  next
    case (Some svc)
    show ?thesis
    proof (cases "getEndpoints k \<lparr>nn_Namespace = getBackendServiceNamespace ing (isb_Name svc),
                                   nn_Name = isb_Name svc\<rparr>")
      case (Inl e)
      with Some show ?thesis
        by (simp add: pathsLoop_Cons withPorts_def del: pathsLoop.simps)
    next
      case (Inr ep)
      with Some show ?thesis
        by (simp add: pathsLoop_Cons withPorts_def subsetsLoop_eq comp_def Cons.IH[unfolded withPorts_def]
              del: pathsLoop.simps)
    qed
  qed
qed

lemma rulesLoop_withPorts:
  "rulesLoop (withPorts f k) host ing rules models evs = rulesLoop k host ing rules models evs"
  by (induction rules arbitrary: models evs)
     (simp_all add: pathsLoop_withPorts split: option.splits prod.splits)

text \<open>The result of the loops in closed form: the backends before the first that is not ready.\<close>

lemma pathsLoop_closed:
  "pathsLoop k host ing rule paths models evs =
     (models @ map (modelFor k host ing) (takeWhile (readyBackend k ing) (pathBackends rule paths)),
      (case dropWhile (readyBackend k ing) (pathBackends rule paths) of
         [] \<Rightarrow> None
       | b # bs \<Rightarrow> Some (backendError k ing b)),
      evs @ map (\<lambda>b. GetEndpoints (backendKey ing b))
              (takeWhile (readyBackend k ing) (pathBackends rule paths) @
               take 1 (dropWhile (readyBackend k ing) (pathBackends rule paths))))"
proof (induction paths arbitrary: models evs)
  case Nil
  show ?case by (simp add: pathBackends_def)
next
  case (Cons path paths)
  show ?case
  proof (cases "ib_Service (hip_Backend path)")
    case None
    then have "pathBackends rule (path # paths) = pathBackends rule paths"
      by (simp add: pathBackends_def)
    with None Cons.IH show ?thesis
      by (simp add: pathsLoop_Cons del: pathsLoop.simps)
  next
    case (Some svc)
    have bs: "pathBackends rule (path # paths) = (rule, svc) # pathBackends rule paths"
      using Some by (simp add: pathBackends_def)
    have key: "backendKey ing (rule, svc) =
        \<lparr>nn_Namespace = getBackendServiceNamespace ing (isb_Name svc), nn_Name = isb_Name svc\<rparr>"
      by (simp add: backendKey_def)
    show ?thesis
    proof (cases "getEndpoints k (backendKey ing (rule, svc))")
      case (Inl e)
      then have "\<not> readyBackend k ing (rule, svc)" "backendError k ing (rule, svc) = e"
        by (simp_all add: readyBackend_def backendError_def)
      with Some Inl show ?thesis
        by (simp add: pathsLoop_Cons bs key del: pathsLoop.simps)
    next
      case (Inr ep)
      show ?thesis
      proof (cases "\<forall>sub\<in>set (Subsets ep). Addresses sub = []")
        case True
        with Inr have "\<not> readyBackend k ing (rule, svc)"
          "backendError k ing (rule, svc) =
             NoReadyEndpoints (getBackendServiceNamespace ing (isb_Name svc)) (isb_Name svc)"
          by (simp_all add: readyBackend_def backendError_def key)
        with Some Inr True show ?thesis
          by (simp add: pathsLoop_Cons bs key del: pathsLoop.simps)
      next
        case False
        with Inr have r: "readyBackend k ing (rule, svc)"
          by (simp add: readyBackend_def)
        have m: "modelFor k host ing (rule, svc) =
            \<lparr>Service =
                (if checkTLSHost (ir_Host rule) (ing_TLS ing)
                 then createLoxiLoadBalancerService (ing_Namespace ing)
                        (ing_Name ing @ ''_https'') host 1 (ir_Host rule)
                 else createLoxiLoadBalancerService (ing_Namespace ing)
                        (ing_Name ing) host 0 (ir_Host rule)),
              Endpoints = subsetsLoop (Subsets ep) (sbp_Number (isb_Port svc)) []\<rparr>"
          using Inr by (simp add: modelFor_def subsetsLoop_eq)
        from Some Inr False r show ?thesis
          by (simp add: pathsLoop_Cons bs key[symmetric] m[symmetric] Cons.IH del: pathsLoop.simps)
      qed
    qed
  qed
qed

lemma rulesLoop_closed:
  "rulesLoop k host ing rules models evs =
     (models @ map (modelFor k host ing) (takeWhile (readyBackend k ing) (ruleBackends rules)),
      (case dropWhile (readyBackend k ing) (ruleBackends rules) of
         [] \<Rightarrow> None
       | b # bs \<Rightarrow> Some (backendError k ing b)),
      evs @ map (\<lambda>b. GetEndpoints (backendKey ing b))
              (takeWhile (readyBackend k ing) (ruleBackends rules) @
               take 1 (dropWhile (readyBackend k ing) (ruleBackends rules))))"
proof (induction rules arbitrary: models evs)
  case Nil
  show ?case by (simp add: ruleBackends_def)
next
  case (Cons rule rules)
  show ?case
  proof (cases "ir_HTTP rule")
    case None
    then have "ruleBackends (rule # rules) = ruleBackends rules"
      by (simp add: ruleBackends_def)
    with None Cons.IH show ?thesis by simp
  next
    case (Some http)
    define ps where "ps = pathBackends rule (Paths http)"
    have bs: "ruleBackends (rule # rules) = ps @ ruleBackends rules"
      using Some by (simp add: ruleBackends_def ps_def)
    show ?thesis
    proof (cases "\<forall>b\<in>set ps. readyBackend k ing b")
      case True
      then have t: "takeWhile (readyBackend k ing) ps = ps" "dropWhile (readyBackend k ing) ps = []"
        by simp_all
      from True have a: "takeWhile (readyBackend k ing) (ps @ ruleBackends rules) =
          ps @ takeWhile (readyBackend k ing) (ruleBackends rules)"
        "dropWhile (readyBackend k ing) (ps @ ruleBackends rules) =
          dropWhile (readyBackend k ing) (ruleBackends rules)"
        by simp_all
      show ?thesis
        by (simp add: rulesLoop_Cons Some pathsLoop_closed ps_def[symmetric] t bs a Cons.IH
              del: rulesLoop.simps)
    next
      case False
      then obtain b where b: "b \<in> set ps" "\<not> readyBackend k ing b" by blast
      then have a: "takeWhile (readyBackend k ing) (ps @ ruleBackends rules) =
          takeWhile (readyBackend k ing) ps"
        "dropWhile (readyBackend k ing) (ps @ ruleBackends rules) =
          dropWhile (readyBackend k ing) ps @ ruleBackends rules"
        by (simp_all add: takeWhile_append1 dropWhile_append1)
      from False have "dropWhile (readyBackend k ing) ps \<noteq> []"
        by (simp add: dropWhile_eq_Nil_conv)
      then obtain d ds where d: "dropWhile (readyBackend k ing) ps = d # ds"
        by (cases "dropWhile (readyBackend k ing) ps") auto
      show ?thesis
        by (simp add: rulesLoop_Cons Some pathsLoop_closed ps_def[symmetric] bs a d
              del: rulesLoop.simps)
    qed
  qed
qed

text \<open>
  C6, as the code has it. In path-routed mode the builder visits the service backends of the
  ingress in order and stops at the first whose Endpoints object is not found or lists no
  address, with the error of the lookup or with \<open>NoReadyEndpoints\<close>; it fails in no other
  case. For every backend before that one it returns one rule model, whose endpoints are all
  the addresses of the Endpoints object, each at the number of the backend's declared port: a
  port name is not resolved, and the port records of the subsets are not read, so the builder
  returns the same models, error and calls whatever the port records are.
\<close>

theorem C6_declared_port_only:
  "createLoxiModelList k host ingress =
     (map (modelFor k host ingress)
        (takeWhile (readyBackend k ingress) (ruleBackends (ing_Rules ingress))),
      (case dropWhile (readyBackend k ingress) (ruleBackends (ing_Rules ingress)) of
         [] \<Rightarrow> None
       | b # bs \<Rightarrow> Some (backendError k ingress b)),
      map (\<lambda>b. GetEndpoints (backendKey ingress b))
        (takeWhile (readyBackend k ingress) (ruleBackends (ing_Rules ingress)) @
         take 1 (dropWhile (readyBackend k ingress) (ruleBackends (ing_Rules ingress))))) \<and>
   createLoxiModelList (withPorts f k) host ingress = createLoxiModelList k host ingress \<and>
   (fst (snd (createLoxiModelList k host ingress)) = None \<longleftrightarrow>
      (\<forall>b\<in>set (ruleBackends (ing_Rules ingress)). readyBackend k ingress b)) \<and>
   ((\<forall>b\<in>set (ruleBackends (ing_Rules ingress)). readyBackend k ingress b) \<longrightarrow>
      fst (createLoxiModelList k host ingress) =
        map (modelFor k host ingress) (ruleBackends (ing_Rules ingress))) \<and>
   (\<forall>m\<in>set (fst (createLoxiModelList k host ingress)).
      \<exists>rule\<in>set (ing_Rules ingress). \<exists>http. ir_HTTP rule = Some http \<and>
        (\<exists>path\<in>set (Paths http). \<exists>svc ep.
            ib_Service (hip_Backend path) = Some svc \<and>
            getEndpoints k \<lparr>nn_Namespace = getBackendServiceNamespace ingress (isb_Name svc),
                            nn_Name = isb_Name svc\<rparr> = Inr ep \<and>
            Endpoints m =
              map (\<lambda>a. \<lparr>EndpointIP = ea_IP a, TargetPort = ucast (sbp_Number (isb_Port svc)),
                         Weight = 1\<rparr>)
                (concat (map Addresses (Subsets ep))))) \<and>
   (\<forall>e. fst (snd (createLoxiModelList k host ingress)) = Some e \<longrightarrow>
      (\<exists>key. getEndpoints k key = Inl e) \<or> (\<exists>ns name. e = NoReadyEndpoints ns name)) \<and>
   (\<forall>ep g. createLoxiLoadBalancerEndpointsWithTargetPort
              (k\<lparr>getEndpoints := \<lambda>key. Inr (ep\<lparr>Subsets := map (\<lambda>sub. sub\<lparr>Ports := g sub\<rparr>) (Subsets ep)\<rparr>)\<rparr>)
              ns name targetPort =
           createLoxiLoadBalancerEndpointsWithTargetPort (k\<lparr>getEndpoints := \<lambda>key. Inr ep\<rparr>)
              ns name targetPort)"
proof -
  have closed: "createLoxiModelList k host ingress =
     (map (modelFor k host ingress)
        (takeWhile (readyBackend k ingress) (ruleBackends (ing_Rules ingress))),
      (case dropWhile (readyBackend k ingress) (ruleBackends (ing_Rules ingress)) of
         [] \<Rightarrow> None
       | b # bs \<Rightarrow> Some (backendError k ingress b)),
      map (\<lambda>b. GetEndpoints (backendKey ingress b))
        (takeWhile (readyBackend k ingress) (ruleBackends (ing_Rules ingress)) @
         take 1 (dropWhile (readyBackend k ingress) (ruleBackends (ing_Rules ingress)))))"
    by (simp add: createLoxiModelList_def rulesLoop_closed)
  have ports: "createLoxiModelList (withPorts f k) host ingress = createLoxiModelList k host ingress"
    by (simp add: createLoxiModelList_def rulesLoop_withPorts)
  have ok: "fst (snd (createLoxiModelList k host ingress)) = None \<longleftrightarrow>
      (\<forall>b\<in>set (ruleBackends (ing_Rules ingress)). readyBackend k ingress b)"
  proof (cases "dropWhile (readyBackend k ingress) (ruleBackends (ing_Rules ingress))")
    case Nil
    have a: "fst (snd (createLoxiModelList k host ingress)) = None"
      by (simp only: closed Nil list.case fst_conv snd_conv)
    have b: "\<forall>b\<in>set (ruleBackends (ing_Rules ingress)). readyBackend k ingress b"
      using Nil dropWhile_eq_Nil_conv[of "readyBackend k ingress" "ruleBackends (ing_Rules ingress)"]
      by blast
    from a b show ?thesis by blast
  next
    case (Cons b rest)
    have a: "fst (snd (createLoxiModelList k host ingress)) = Some (backendError k ingress b)"
      by (simp only: closed Cons list.case fst_conv snd_conv)
    have c: "\<not> (\<forall>b\<in>set (ruleBackends (ing_Rules ingress)). readyBackend k ingress b)"
      using Cons dropWhile_eq_Nil_conv[of "readyBackend k ingress" "ruleBackends (ing_Rules ingress)"]
      by (metis list.distinct(1))
    from a c show ?thesis by simp
  qed
  have allready: "(\<forall>b\<in>set (ruleBackends (ing_Rules ingress)). readyBackend k ingress b) \<longrightarrow>
      fst (createLoxiModelList k host ingress) =
        map (modelFor k host ingress) (ruleBackends (ing_Rules ingress))"
  proof
    assume "\<forall>b\<in>set (ruleBackends (ing_Rules ingress)). readyBackend k ingress b"
    then have "takeWhile (readyBackend k ingress) (ruleBackends (ing_Rules ingress)) =
        ruleBackends (ing_Rules ingress)"
      by (simp add: takeWhile_eq_all_conv)
    then show "fst (createLoxiModelList k host ingress) =
        map (modelFor k host ingress) (ruleBackends (ing_Rules ingress))"
      by (simp only: closed fst_conv)
  qed
  from closed ports ok allready builder_declared_port[of k host ingress ns name targetPort]
  show ?thesis by blast
qed

lemma plainIngress_backends:
  "ruleBackends (ing_Rules plainIngress) =
     [(hostRule ''a.com'', \<lparr>isb_Name = ''svc'', isb_Port = \<lparr>sbp_Name = [], sbp_Number = 8080\<rparr>\<rparr>)]"
  by (simp add: ruleBackends_def pathBackends_def fixture_defs)

theorem C6_declared_port_only_witness:
  "readyBackend (appStore plainIngress (addressesAt [''10.0.0.5''] [8080])) plainIngress
     (hostRule ''a.com'', \<lparr>isb_Name = ''svc'', isb_Port = \<lparr>sbp_Name = [], sbp_Number = 8080\<rparr>\<rparr>) \<and>
   createLoxiModelList
     (withPorts (\<lambda>key sub. [\<lparr>ep_Port = 9090\<rparr>])
        (appStore plainIngress (addressesAt [''10.0.0.5''] [8080])))
     ''1.2.3.4'' plainIngress =
     ([plainRule ep5], None, [GetEndpoints nsSvc]) \<and>
   \<not> readyBackend unreadyStore plainIngress
     (hostRule ''a.com'', \<lparr>isb_Name = ''svc'', isb_Port = \<lparr>sbp_Name = [], sbp_Number = 8080\<rparr>\<rparr>) \<and>
   fst (snd (createLoxiModelList unreadyStore ''1.2.3.4'' plainIngress)) =
     Some (NoReadyEndpoints ''ns'' ''svc'')"
proof -
  let ?k = "appStore plainIngress (addressesAt [''10.0.0.5''] [8080])"
  let ?b = "(hostRule ''a.com'', \<lparr>isb_Name = ''svc'', isb_Port = \<lparr>sbp_Name = [], sbp_Number = 8080\<rparr>\<rparr>)"
  have r: "readyBackend ?k plainIngress ?b"
    by (simp add: readyBackend_def backendKey_def getBackendServiceNamespace_def fixture_defs)
  then have all: "\<forall>b\<in>set (ruleBackends (ing_Rules plainIngress)). readyBackend ?k plainIngress b"
    by (simp add: plainIngress_backends)
  have m: "modelFor ?k ''1.2.3.4'' plainIngress ?b = plainRule ep5"
    by (simp add: modelFor_def backendKey_def getBackendServiceNamespace_def
          createLoxiLoadBalancerService_def fixture_defs)
  have e: "backendKey plainIngress ?b = nsSvc"
    by (simp add: backendKey_def getBackendServiceNamespace_def fixture_defs)
  note inst = C6_declared_port_only [where k = ?k and host = "''1.2.3.4''" and ingress = plainIngress
      and f = "\<lambda>key sub. [\<lparr>ep_Port = 9090\<rparr>]"]
  from inst all have "createLoxiModelList (withPorts (\<lambda>key sub. [\<lparr>ep_Port = 9090\<rparr>]) ?k)
      ''1.2.3.4'' plainIngress =
     (map (modelFor ?k ''1.2.3.4'' plainIngress)
        (takeWhile (readyBackend ?k plainIngress) (ruleBackends (ing_Rules plainIngress))),
      (case dropWhile (readyBackend ?k plainIngress) (ruleBackends (ing_Rules plainIngress)) of
         [] \<Rightarrow> None
       | b # bs \<Rightarrow> Some (backendError ?k plainIngress b)),
      map (\<lambda>b. GetEndpoints (backendKey plainIngress b))
        (takeWhile (readyBackend ?k plainIngress) (ruleBackends (ing_Rules plainIngress)) @
         take 1 (dropWhile (readyBackend ?k plainIngress) (ruleBackends (ing_Rules plainIngress)))))"
    by simp
  with r m e have one: "createLoxiModelList (withPorts (\<lambda>key sub. [\<lparr>ep_Port = 9090\<rparr>]) ?k)
      ''1.2.3.4'' plainIngress = ([plainRule ep5], None, [GetEndpoints nsSvc])"
    by (simp add: plainIngress_backends)
  have n: "\<not> readyBackend unreadyStore plainIngress ?b"
    by (simp add: readyBackend_def backendKey_def getBackendServiceNamespace_def
          unreadyStore_def fixture_defs)
  have be: "backendError unreadyStore plainIngress ?b = NoReadyEndpoints ''ns'' ''svc''"
    by (simp add: backendError_def backendKey_def getBackendServiceNamespace_def
          unreadyStore_def fixture_defs)
  from C6_declared_port_only [where k = unreadyStore and host = "''1.2.3.4''" and ingress = plainIngress] n be
  have two: "fst (snd (createLoxiModelList unreadyStore ''1.2.3.4'' plainIngress)) =
     Some (NoReadyEndpoints ''ns'' ''svc'')"
    by (simp add: plainIngress_backends)
  from r one n two show ?thesis by blast
qed

text \<open>
  C6 as stated fails: the backend declares port 8080, the only port record of the
  endpoint subset is 9090, and the builder returns a rule model and no error.
\<close>

theorem C6_port_resolution_counterexample:
  "createLoxiModelList (appStore plainIngress (addressesAt [''10.0.0.5''] [9090])) ''1.2.3.4''
      plainIngress =
     ([\<lparr>Service = \<lparr>ExternalIP = ''1.2.3.4'', Port = 80, Protocol = ''tcp'', Sel = LbSelRr,
                   Mode = 4, Security = 0, Name = ''ns_app'', Host = ''a.com''\<rparr>,
       Endpoints = [\<lparr>EndpointIP = ''10.0.0.5'', TargetPort = 8080, Weight = 1\<rparr>]\<rparr>],
      None, [GetEndpoints nsSvc]) \<and>
   map ep_Port (concat (map Ports (Subsets (addressesAt [''10.0.0.5''] [9090])))) = [9090] \<and>
   sbp_Number (isb_Port (the (ib_Service (hip_Backend svc8080)))) = 8080"
  by (simp add: builder_defs fixture_defs)

subsection \<open>The differ\<close>





lemma modelsLoop_eq:
  "modelsLoop models items applyModels =
     applyModels @ filter (\<lambda>model. \<not> itemsLoop model items) models"
  by (induction models arbitrary: applyModels) simp_all





subsection \<open>The branches of a reconciliation pass\<close>

lemma existLoop_eq:
  "existLoop ruleName ruleNameHTTPS items (exist, existHTTPS) =
     (exist \<or> ruleName \<in> (\<lambda>m. Name (Service m)) ` set items,
      existHTTPS \<or> (ruleNameHTTPS \<noteq> ruleName \<and> ruleNameHTTPS \<in> (\<lambda>m. Name (Service m)) ` set items))"
  by (induction items arbitrary: exist existHTTPS) auto

lemma deleteBoth_events:
  "snd (deleteBoth exist existHTTPS c ruleName ruleNameHTTPS s) =
     (if exist then [LbDeleteByName ruleName] else []) @
     (if existHTTPS then [LbDeleteByName ruleNameHTTPS] else [])"
  by (simp add: deleteBoth_def deleteIf_def)

lemma Reconcile_list_error:
  "lbList c s = (Inl err, s1) \<Longrightarrow>
   Reconcile k c req s = ((\<lparr>RequeueAfter = 0\<rparr>, Some err), s1, [LbList])"
  by (simp add: Reconcile_def)

lemma Reconcile_deleted:
  assumes "lbList c s = (Inr currLBList, s1)" "getIngress k req = Inl err" "IsNotFound err"
  shows "Reconcile k c req s =
     ((\<lparr>RequeueAfter = 0\<rparr>, None),
      fst (deleteBoth (nn_Namespace req @ ''_'' @ nn_Name req \<in> (\<lambda>m. Name (Service m)) ` set currLBList)
             (nn_Namespace req @ ''_'' @ nn_Name req @ ''_https'' \<in> (\<lambda>m. Name (Service m)) ` set currLBList)
             c (nn_Namespace req @ ''_'' @ nn_Name req)
             (nn_Namespace req @ ''_'' @ nn_Name req @ ''_https'') s1),
      [LbList, GetIngress req] @
      snd (deleteBoth (nn_Namespace req @ ''_'' @ nn_Name req \<in> (\<lambda>m. Name (Service m)) ` set currLBList)
             (nn_Namespace req @ ''_'' @ nn_Name req @ ''_https'' \<in> (\<lambda>m. Name (Service m)) ` set currLBList)
             c (nn_Namespace req @ ''_'' @ nn_Name req)
             (nn_Namespace req @ ''_'' @ nn_Name req @ ''_https'') s1))"
  using assms by (simp add: Reconcile_def existLoop_eq Let_def case_prod_beta)

lemma Reconcile_get_error:
  assumes "lbList c s = (Inr currLBList, s1)" "getIngress k req = Inl err" "\<not> IsNotFound err"
  shows "Reconcile k c req s = ((\<lparr>RequeueAfter = 0\<rparr>, Some err), s1, [LbList, GetIngress req])"
  using assms by (simp add: Reconcile_def existLoop_eq Let_def case_prod_beta)

lemma Reconcile_build_error:
  assumes "lbList c s = (Inr currLBList, s1)" "getIngress k req = Inr ingress"
    "buildModels k (lc_Host c) ingress = (models, Some e, bev)"
  shows "Reconcile k c req s =
     ((\<lparr>RequeueAfter = 0\<rparr>, Some e),
      fst (deleteBoth (nn_Namespace req @ ''_'' @ nn_Name req \<in> (\<lambda>m. Name (Service m)) ` set currLBList)
             (nn_Namespace req @ ''_'' @ nn_Name req @ ''_https'' \<in> (\<lambda>m. Name (Service m)) ` set currLBList)
             c (nn_Namespace req @ ''_'' @ nn_Name req)
             (nn_Namespace req @ ''_'' @ nn_Name req @ ''_https'') s1),
      [LbList, GetIngress req] @ bev @
      snd (deleteBoth (nn_Namespace req @ ''_'' @ nn_Name req \<in> (\<lambda>m. Name (Service m)) ` set currLBList)
             (nn_Namespace req @ ''_'' @ nn_Name req @ ''_https'' \<in> (\<lambda>m. Name (Service m)) ` set currLBList)
             c (nn_Namespace req @ ''_'' @ nn_Name req)
             (nn_Namespace req @ ''_'' @ nn_Name req @ ''_https'') s1))"
  using assms by (simp add: Reconcile_def existLoop_eq Let_def case_prod_beta)

lemma Reconcile_converged:
  assumes "lbList c s = (Inr currLBList, s1)" "getIngress k req = Inr ingress"
    "buildModels k (lc_Host c) ingress = (models, None, bev)"
    "modelsLoop models currLBList [] = []"
  shows "Reconcile k c req s =
     ((\<lparr>RequeueAfter = 30 * Second\<rparr>, None), s1, [LbList, GetIngress req] @ bev)"
  using assms by (simp add: Reconcile_def existLoop_eq Let_def case_prod_beta)

lemma Reconcile_apply:
  assumes "lbList c s = (Inr currLBList, s1)" "getIngress k req = Inr ingress"
    "buildModels k (lc_Host c) ingress = (models, None, bev)"
    "modelsLoop models currLBList [] \<noteq> []"
    "applyLoop c (modelsLoop models currLBList []) s1 ([LbList, GetIngress req] @ bev) = (cerr, s2, evs)"
  shows "Reconcile k c req s =
     (case cerr of
        Some e \<Rightarrow> ((\<lparr>RequeueAfter = 0\<rparr>, Some e), s2, evs)
      | None \<Rightarrow> ((\<lparr>RequeueAfter = 30 * Second\<rparr>, None), s2,
                 evs @ snd (snd (updateIngressStatus k ingress))))"
  using assms by (simp add: Reconcile_def existLoop_eq Let_def case_prod_beta split: option.splits)

subsection \<open>The loop of the creates\<close>

lemma applyLoop_events:
  "applyLoop c models s evs = (err, s', evs') \<Longrightarrow>
   \<exists>n\<le>length models. evs' = evs @ map LbCreate (take n models) \<and> (err = None \<longrightarrow> n = length models)"
proof (induction models arbitrary: s evs)
  case Nil
  then show ?case by simp
next
  case (Cons model models)
  obtain r t where cr: "lbCreate c model s = (r, t)" by (cases "lbCreate c model s") auto
  show ?case
  proof (cases "\<exists>e. r = Some e \<and> Error e \<noteq> ''lbrule-exists error''")
    case True
    with Cons.prems cr have "evs' = evs @ [LbCreate model]" "err \<noteq> None" by auto
    then have "evs' = evs @ map LbCreate (take 1 (model # models)) \<and>
               (err = None \<longrightarrow> 1 = length (model # models))" by auto
    moreover have "(1::nat) \<le> length (model # models)" by simp
    ultimately show ?thesis by blast
  next
    case False
    with Cons.prems cr have "applyLoop c models t (evs @ [LbCreate model]) = (err, s', evs')"
      by (cases r) auto
    from Cons.IH[OF this] obtain n where "n \<le> length models"
      "evs' = (evs @ [LbCreate model]) @ map LbCreate (take n models)"
      "err = None \<longrightarrow> n = length models" by blast
    then have "Suc n \<le> length (model # models)"
      "evs' = evs @ map LbCreate (take (Suc n) (model # models))"
      "err = None \<longrightarrow> Suc n = length (model # models)" by simp_all
    then show ?thesis by blast
  qed
qed

lemma applyLoop_continues:
  assumes "\<forall>m\<in>set models. \<forall>t e. fst (lbCreate c m t) = Some e \<longrightarrow> Error e = ''lbrule-exists error''"
  shows "\<exists>s'. applyLoop c models s evs = (None, s', evs @ map LbCreate models)"
  using assms
proof (induction models arbitrary: s evs)
  case Nil
  then show ?case by simp
next
  case (Cons model models)
  obtain r t where cr: "lbCreate c model s = (r, t)" by (cases "lbCreate c model s") auto
  from Cons.prems cr have benign: "\<forall>e. r = Some e \<longrightarrow> Error e = ''lbrule-exists error''"
    by (metis fst_conv list.set_intros(1))
  from Cons.prems have rest: "\<forall>m\<in>set models. \<forall>t e. fst (lbCreate c m t) = Some e \<longrightarrow>
      Error e = ''lbrule-exists error''" by simp
  from Cons.IH[OF rest] obtain s' where
    "applyLoop c models t (evs @ [LbCreate model]) = (None, s', (evs @ [LbCreate model]) @ map LbCreate models)"
    by blast
  with cr benign have "applyLoop c (model # models) s evs = (None, s', evs @ map LbCreate (model # models))"
    by (cases r) auto
  then show ?case by blast
qed

lemma applyLoop_aborts:
  assumes "\<forall>m\<in>set pre. \<forall>t e. fst (lbCreate c m t) = Some e \<longrightarrow> Error e = ''lbrule-exists error''"
    and "\<forall>t. fst (lbCreate c model t) = Some e"
    and "Error e \<noteq> ''lbrule-exists error''"
  shows "\<exists>s'. applyLoop c (pre @ model # post) s evs = (Some e, s', evs @ map LbCreate (pre @ [model]))"
  using assms(1)
proof (induction pre arbitrary: s evs)
  case Nil
  obtain r t where cr: "lbCreate c model s = (r, t)" by (cases "lbCreate c model s") auto
  with assms(2) have "r = Some e" by (metis fst_conv)
  with cr assms(3) show ?case by simp
next
  case (Cons m pre)
  obtain r t where cr: "lbCreate c m s = (r, t)" by (cases "lbCreate c m s") auto
  from Cons.prems cr have benign: "\<forall>e. r = Some e \<longrightarrow> Error e = ''lbrule-exists error''"
    by (metis fst_conv list.set_intros(1))
  from Cons.prems have rest: "\<forall>m\<in>set pre. \<forall>t e. fst (lbCreate c m t) = Some e \<longrightarrow>
      Error e = ''lbrule-exists error''" by simp
  from Cons.IH[OF rest] obtain s' where
    "applyLoop c (pre @ model # post) t (evs @ [LbCreate m]) =
       (Some e, s', (evs @ [LbCreate m]) @ map LbCreate (pre @ [model]))"
    by blast
  with cr benign have "applyLoop c ((m # pre) @ model # post) s evs =
      (Some e, s', evs @ map LbCreate ((m # pre) @ [model]))"
    by (cases r) auto
  then show ?case by blast
qed

subsection \<open>A deleted ingress\<close>

text \<open>
  C1, as the code has it. When the ingress is not found, the pass ends without an error and
  has asked the remote store to delete exactly those of the two identity keys that occur in
  the fetched snapshot, the plain key first; a key that the snapshot lacks is not deleted.
\<close>

theorem C1_deletes_follow_snapshot:
  assumes "lbList c s = (Inr currLBList, s1)" and "getIngress k req = Inl err" and "IsNotFound err"
  shows "fst (Reconcile k c req s) = (\<lparr>RequeueAfter = 0\<rparr>, None) \<and>
     snd (snd (Reconcile k c req s)) =
       [LbList, GetIngress req] @
       (if nn_Namespace req @ ''_'' @ nn_Name req \<in> (\<lambda>m. Name (Service m)) ` set currLBList
        then [LbDeleteByName (nn_Namespace req @ ''_'' @ nn_Name req)] else []) @
       (if nn_Namespace req @ ''_'' @ nn_Name req @ ''_https'' \<in> (\<lambda>m. Name (Service m)) ` set currLBList
        then [LbDeleteByName (nn_Namespace req @ ''_'' @ nn_Name req @ ''_https'')] else [])"
  by (simp only: Reconcile_deleted[OF assms] deleteBoth_events fst_conv snd_conv simp_thms)

theorem C1_deletes_follow_snapshot_witness:
  "lbList (remoteStore ''1.2.3.4'' [plainRule ep5, tlsRule ep5] (\<lambda>m. None)) [plainRule ep5, tlsRule ep5] =
     (Inr [plainRule ep5, tlsRule ep5], [plainRule ep5, tlsRule ep5]) \<and>
   getIngress emptyStore nsApp = Inl notFound \<and> IsNotFound notFound \<and>
   snd (snd (Reconcile emptyStore (remoteStore ''1.2.3.4'' [plainRule ep5, tlsRule ep5] (\<lambda>m. None))
               nsApp [plainRule ep5, tlsRule ep5])) =
     [LbList, GetIngress nsApp, LbDeleteByName ''ns_app'', LbDeleteByName ''ns_app_https'']"
proof -
  have h1: "lbList (remoteStore ''1.2.3.4'' [plainRule ep5, tlsRule ep5] (\<lambda>m. None)) [plainRule ep5, tlsRule ep5] =
     (Inr [plainRule ep5, tlsRule ep5], [plainRule ep5, tlsRule ep5])"
    by (simp add: remoteStore_def)
  have h2: "getIngress emptyStore nsApp = Inl notFound"
    by (simp add: emptyStore_def objectStore_def)
  have h3: "IsNotFound notFound"
    by (simp add: notFound_def)
  from C1_deletes_follow_snapshot[OF h1 h2 h3]
  have "snd (snd (Reconcile emptyStore (remoteStore ''1.2.3.4'' [plainRule ep5, tlsRule ep5] (\<lambda>m. None))
               nsApp [plainRule ep5, tlsRule ep5])) =
     [LbList, GetIngress nsApp, LbDeleteByName ''ns_app'', LbDeleteByName ''ns_app_https'']"
    by (simp add: nsApp_def plainRule_def tlsRule_def)
  with h1 h2 h3 show ?thesis by blast
qed

text \<open>
  C1 as stated fails: both rules are installed in the remote store, the snapshot shows
  the plain one only, and the pass deletes the plain rule and leaves the other installed.
\<close>

theorem C1_stale_snapshot_counterexample:
  "Reconcile emptyStore (remoteStore ''1.2.3.4'' [plainRule ep5] (\<lambda>m. None)) nsApp
      [plainRule ep5, tlsRule ep5] =
     ((\<lparr>RequeueAfter = 0\<rparr>, None), [tlsRule ep5],
      [LbList, GetIngress nsApp, LbDeleteByName ''ns_app''])"
  by (simp add: Reconcile_def deleteBoth_def deleteIf_def fixture_defs)

subsection \<open>The answers of the creates\<close>

text \<open>
  C7. The pass has reached the creates with a non-empty list of models to apply. If every
  create answers with no error or with the error \<^verbatim>\<open>lbrule-exists error\<close>, every model is
  sent to the remote store in order, the status is updated and the pass ends without an error.
  If the creates before some model answer so and the create of that model answers with another
  error, the pass ends there with that error: no later model is sent and the status is not
  updated. In any state of the remote store, the loop of the creates goes on with the
  remaining models after such a harmless answer and returns at once with any other error.
\<close>

theorem C7_create_errors:
  assumes "lbList c s = (Inr currLBList, s1)" and "getIngress k req = Inr ingress"
    and "buildModels k (lc_Host c) ingress = (models, None, bev)"
    and "modelsLoop models currLBList [] = pre @ model # post"
    and "\<forall>m\<in>set pre. \<forall>t e. fst (lbCreate c m t) = Some e \<longrightarrow> Error e = ''lbrule-exists error''"
  shows "((\<forall>m\<in>set (model # post). \<forall>t e. fst (lbCreate c m t) = Some e \<longrightarrow>
              Error e = ''lbrule-exists error'') \<longrightarrow>
          fst (Reconcile k c req s) = (\<lparr>RequeueAfter = 30 * Second\<rparr>, None) \<and>
          snd (snd (Reconcile k c req s)) =
            [LbList, GetIngress req] @ bev @ map LbCreate (pre @ model # post) @
            snd (snd (updateIngressStatus k ingress))) \<and>
         ((\<forall>t. fst (lbCreate c model t) = Some e) \<and> Error e \<noteq> ''lbrule-exists error'' \<longrightarrow>
          fst (Reconcile k c req s) = (\<lparr>RequeueAfter = 0\<rparr>, Some e) \<and>
          snd (snd (Reconcile k c req s)) =
            [LbList, GetIngress req] @ bev @ map LbCreate (pre @ [model])) \<and>
         (\<forall>t evs. (\<forall>e'. fst (lbCreate c m t) = Some e' \<longrightarrow> Error e' = ''lbrule-exists error'') \<longrightarrow>
            applyLoop c (m # ms) t evs =
            applyLoop c ms (snd (lbCreate c m t)) (evs @ [LbCreate m])) \<and>
         (\<forall>t evs e'. fst (lbCreate c m t) = Some e' \<and> Error e' \<noteq> ''lbrule-exists error'' \<longrightarrow>
            applyLoop c (m # ms) t evs = (Some e', snd (lbCreate c m t), evs @ [LbCreate m]))"
proof (intro conjI impI)
  have ne: "modelsLoop models currLBList [] \<noteq> []"
    using assms(4) by simp
  {
    assume "\<forall>m\<in>set (model # post). \<forall>t e. fst (lbCreate c m t) = Some e \<longrightarrow>
              Error e = ''lbrule-exists error''"
    with assms(5) have "\<forall>m\<in>set (pre @ model # post). \<forall>t e. fst (lbCreate c m t) = Some e \<longrightarrow>
              Error e = ''lbrule-exists error''"
      by auto
    from applyLoop_continues[OF this] obtain s2 where
      "applyLoop c (pre @ model # post) s1 ([LbList, GetIngress req] @ bev) =
         (None, s2, ([LbList, GetIngress req] @ bev) @ map LbCreate (pre @ model # post))"
      by blast
    then have a: "applyLoop c (modelsLoop models currLBList []) s1 ([LbList, GetIngress req] @ bev) =
         (None, s2, ([LbList, GetIngress req] @ bev) @ map LbCreate (pre @ model # post))"
      by (simp only: assms(4))
    have r: "Reconcile k c req s =
        ((\<lparr>RequeueAfter = 30 * Second\<rparr>, None), s2,
         (([LbList, GetIngress req] @ bev) @ map LbCreate (pre @ model # post)) @
         snd (snd (updateIngressStatus k ingress)))"
      by (simp only: Reconcile_apply[OF assms(1,2,3) ne a] option.case)
    show "fst (Reconcile k c req s) = (\<lparr>RequeueAfter = 30 * Second\<rparr>, None)"
      by (simp only: r fst_conv)
    show "snd (snd (Reconcile k c req s)) =
            [LbList, GetIngress req] @ bev @ map LbCreate (pre @ model # post) @
            snd (snd (updateIngressStatus k ingress))"
      by (simp only: r snd_conv append_assoc)
  }
  {
    assume "(\<forall>t. fst (lbCreate c model t) = Some e) \<and> Error e \<noteq> ''lbrule-exists error''"
    then have h: "\<forall>t. fst (lbCreate c model t) = Some e" "Error e \<noteq> ''lbrule-exists error''"
      by blast+
    from applyLoop_aborts[OF assms(5) h] obtain s2 where
      "applyLoop c (pre @ model # post) s1 ([LbList, GetIngress req] @ bev) =
         (Some e, s2, ([LbList, GetIngress req] @ bev) @ map LbCreate (pre @ [model]))"
      by blast
    then have a: "applyLoop c (modelsLoop models currLBList []) s1 ([LbList, GetIngress req] @ bev) =
         (Some e, s2, ([LbList, GetIngress req] @ bev) @ map LbCreate (pre @ [model]))"
      by (simp only: assms(4))
    have r: "Reconcile k c req s =
        ((\<lparr>RequeueAfter = 0\<rparr>, Some e), s2,
         ([LbList, GetIngress req] @ bev) @ map LbCreate (pre @ [model]))"
      by (simp only: Reconcile_apply[OF assms(1,2,3) ne a] option.case)
    show "fst (Reconcile k c req s) = (\<lparr>RequeueAfter = 0\<rparr>, Some e)"
      by (simp only: r fst_conv)
    show "snd (snd (Reconcile k c req s)) =
            [LbList, GetIngress req] @ bev @ map LbCreate (pre @ [model])"
      by (simp only: r snd_conv append_assoc)
  }
  show "\<forall>t evs. (\<forall>e'. fst (lbCreate c m t) = Some e' \<longrightarrow> Error e' = ''lbrule-exists error'') \<longrightarrow>
            applyLoop c (m # ms) t evs =
            applyLoop c ms (snd (lbCreate c m t)) (evs @ [LbCreate m])"
    by (auto split: prod.splits option.splits)
  show "\<forall>t evs e'. fst (lbCreate c m t) = Some e' \<and> Error e' \<noteq> ''lbrule-exists error'' \<longrightarrow>
            applyLoop c (m # ms) t evs = (Some e', snd (lbCreate c m t), evs @ [LbCreate m])"
    by (auto split: prod.splits option.splits)
qed

lemma tlsStore_build:
  "buildModels tlsStore ''1.2.3.4'' tlsIngress =
     ([tlsModelA, plainModelB], None, [GetEndpoints nsSvc, GetEndpoints nsSvc])"
  by (simp add: buildModels_def builder_defs fixture_defs tlsStore_def tlsModelA_def plainModelB_def)

theorem C7_create_errors_witness:
  "fst (Reconcile tlsStore
          (remoteStore ''1.2.3.4'' []
             (answerByName [''ns_app_https'' \<mapsto> ''lbrule-exists error'',
                            ''ns_app'' \<mapsto> ''lbrule-internal error'']))
          nsApp []) =
     (\<lparr>RequeueAfter = 0\<rparr>, Some (GoError False ''lbrule-internal error'')) \<and>
   snd (snd (Reconcile tlsStore
          (remoteStore ''1.2.3.4'' []
             (answerByName [''ns_app_https'' \<mapsto> ''lbrule-exists error'',
                            ''ns_app'' \<mapsto> ''lbrule-internal error'']))
          nsApp [])) =
     [LbList, GetIngress nsApp, GetEndpoints nsSvc, GetEndpoints nsSvc,
      LbCreate tlsModelA, LbCreate plainModelB] \<and>
   fst (Reconcile tlsStore
          (remoteStore ''1.2.3.4'' [] (answerByName [''ns_app_https'' \<mapsto> ''lbrule-exists error'']))
          nsApp []) =
     (\<lparr>RequeueAfter = 30 * Second\<rparr>, None) \<and>
   snd (snd (Reconcile tlsStore
          (remoteStore ''1.2.3.4'' [] (answerByName [''ns_app_https'' \<mapsto> ''lbrule-exists error'']))
          nsApp [])) =
     [LbList, GetIngress nsApp, GetEndpoints nsSvc, GetEndpoints nsSvc,
      LbCreate tlsModelA, LbCreate plainModelB]"
proof -
  let ?c = "remoteStore ''1.2.3.4'' []
             (answerByName [''ns_app_https'' \<mapsto> ''lbrule-exists error'',
                            ''ns_app'' \<mapsto> ''lbrule-internal error''])"
  let ?d = "remoteStore ''1.2.3.4'' [] (answerByName [''ns_app_https'' \<mapsto> ''lbrule-exists error''])"
  have names: "Name (Service tlsModelA) = ''ns_app_https''" "Name (Service plainModelB) = ''ns_app''"
    by (simp_all add: tlsModelA_def plainModelB_def)
  have g: "getIngress tlsStore nsApp = Inr tlsIngress"
    by (simp add: tlsStore_def appStore_def objectStore_def)
  have d: "modelsLoop [tlsModelA, plainModelB] [] [] = [tlsModelA] @ plainModelB # []"
    by simp
  have u: "snd (snd (updateIngressStatus tlsStore tlsIngress)) = []"
    by (simp add: updateIngressStatus_def statusSourceKey_def tlsIngress_def appIngress_def)
  have lc: "lbList ?c [] = (Inr [], [])" "lc_Host ?c = ''1.2.3.4''"
    by (simp_all add: remoteStore_def)
  have bc: "buildModels tlsStore (lc_Host ?c) tlsIngress =
     ([tlsModelA, plainModelB], None, [GetEndpoints nsSvc, GetEndpoints nsSvc])"
    by (simp only: lc tlsStore_build)
  have pc: "\<forall>m\<in>set [tlsModelA]. \<forall>t e. fst (lbCreate ?c m t) = Some e \<longrightarrow>
      Error e = ''lbrule-exists error''"
    by (simp add: remoteStore_def answerByName_def names)
  have hard: "(\<forall>t. fst (lbCreate ?c plainModelB t) = Some (GoError False ''lbrule-internal error'')) \<and>
      Error (GoError False ''lbrule-internal error'') \<noteq> ''lbrule-exists error''"
    by (simp add: remoteStore_def answerByName_def names)
  from C7_create_errors[OF lc(1) g bc d pc, where e = "GoError False ''lbrule-internal error''"] hard
  have one: "fst (Reconcile tlsStore ?c nsApp []) =
       (\<lparr>RequeueAfter = 0\<rparr>, Some (GoError False ''lbrule-internal error''))"
    "snd (snd (Reconcile tlsStore ?c nsApp [])) =
       [LbList, GetIngress nsApp, GetEndpoints nsSvc, GetEndpoints nsSvc,
        LbCreate tlsModelA, LbCreate plainModelB]"
    by simp_all
  have ld: "lbList ?d [] = (Inr [], [])" "lc_Host ?d = ''1.2.3.4''"
    by (simp_all add: remoteStore_def)
  have bd: "buildModels tlsStore (lc_Host ?d) tlsIngress =
     ([tlsModelA, plainModelB], None, [GetEndpoints nsSvc, GetEndpoints nsSvc])"
    by (simp only: ld tlsStore_build)
  have pd: "\<forall>m\<in>set [tlsModelA]. \<forall>t e. fst (lbCreate ?d m t) = Some e \<longrightarrow>
      Error e = ''lbrule-exists error''"
    by (simp add: remoteStore_def answerByName_def names)
  have soft: "\<forall>m\<in>set (plainModelB # []). \<forall>t e. fst (lbCreate ?d m t) = Some e \<longrightarrow>
      Error e = ''lbrule-exists error''"
    by (simp add: remoteStore_def answerByName_def names)
  from C7_create_errors[OF ld(1) g bd d pd, where e = "GoError False []"] soft u
  have two: "fst (Reconcile tlsStore ?d nsApp []) = (\<lparr>RequeueAfter = 30 * Second\<rparr>, None)"
    "snd (snd (Reconcile tlsStore ?d nsApp [])) =
       [LbList, GetIngress nsApp, GetEndpoints nsSvc, GetEndpoints nsSvc,
        LbCreate tlsModelA, LbCreate plainModelB]"
    by simp_all
  from one two show ?thesis by blast
qed

subsection \<open>The direct-service builder\<close>

lemma GetServicePortIntValue_events:
  "GetServicePortIntValue k svc port = (n, err, ev) \<Longrightarrow> \<forall>e\<in>set ev. \<exists>sel. e = ListPods sel"
  by (auto simp: GetServicePortIntValue_def split: if_splits sum.splits option.splits)

lemma portsLoop_Cons:
  "portsLoop k ingress svc svcNs svcName selStr (port # ports) models evs =
     (case GetServicePortIntValue k svc port of
        (n, Some e, ev) \<Rightarrow> (models, Some e, evs @ ev)
      | (n, None, ev) \<Rightarrow>
          (case getEndpoints k \<lparr>nn_Namespace = svcNs, nn_Name = svcName\<rparr> of
             Inl e \<Rightarrow> (models, Some e, evs @ ev @ [GetEndpoints \<lparr>nn_Namespace = svcNs, nn_Name = svcName\<rparr>])
           | Inr ep \<Rightarrow>
               (if \<forall>sub\<in>set (Subsets ep). Addresses sub = []
                then (models, Some (NoReadyEndpoints svcNs svcName),
                      evs @ ev @ [GetEndpoints \<lparr>nn_Namespace = svcNs, nn_Name = svcName\<rparr>])
                else portsLoop k ingress svc svcNs svcName selStr ports
                       (models @
                        [\<lparr>Service = createDirectLoxiLoadBalancerService svcNs (ing_Name ingress)
                                      ''0.0.0.0'' (sp_Protocol port) [] selStr (sp_Port port),
                          Endpoints = subsetsLoop (Subsets ep) n []\<rparr>])
                       (evs @ ev @ [GetEndpoints \<lparr>nn_Namespace = svcNs, nn_Name = svcName\<rparr>]))))"
  by (auto simp: resolver_cases Let_def split: prod.splits option.splits sum.splits)

lemma portsLoop_models:
  "portsLoop k ingress svc svcNs svcName selStr ports models evs = (models', err, evs') \<Longrightarrow>
   \<exists>new. models' = models @ new \<and> (\<forall>m\<in>set new. Endpoints m \<noteq> [])"
proof (induction ports arbitrary: models evs)
  case Nil
  then show ?case by simp
next
  case (Cons port ports)
  obtain n gerr ev where g: "GetServicePortIntValue k svc port = (n, gerr, ev)"
    by (cases "GetServicePortIntValue k svc port") auto
  let ?key = "\<lparr>nn_Namespace = svcNs, nn_Name = svcName\<rparr>"
  show ?case
  proof (cases "gerr = None \<and> (\<exists>ep. getEndpoints k ?key = Inr ep \<and> \<not> (\<forall>sub\<in>set (Subsets ep). Addresses sub = []))")
    case False
    with Cons.prems g have "models' = models"
      by (auto simp: portsLoop_Cons simp del: portsLoop.simps split: option.splits sum.splits if_splits)
    then show ?thesis by simp
  next
    case True
    then obtain ep where ep: "gerr = None" "getEndpoints k ?key = Inr ep"
      "\<not> (\<forall>sub\<in>set (Subsets ep). Addresses sub = [])" by blast
    define m where "m = \<lparr>Service = createDirectLoxiLoadBalancerService svcNs (ing_Name ingress)
                                      ''0.0.0.0'' (sp_Protocol port) [] selStr (sp_Port port),
                          Endpoints = subsetsLoop (Subsets ep) n []\<rparr>"
    from Cons.prems g ep
    have "portsLoop k ingress svc svcNs svcName selStr ports (models @ [m])
            (evs @ ev @ [GetEndpoints ?key]) = (models', err, evs')"
      by (simp add: portsLoop_Cons m_def del: portsLoop.simps)
    from Cons.IH[OF this] obtain new where
      "models' = (models @ [m]) @ new" "\<forall>x\<in>set new. Endpoints x \<noteq> []" by blast
    moreover have "Endpoints m \<noteq> []"
      using ep(3) by (simp add: m_def subsetsLoop_empty_iff)
    ultimately have "models' = models @ (m # new)" "\<forall>x\<in>set (m # new). Endpoints x \<noteq> []"
      by simp_all
    then show ?thesis by blast
  qed
qed

lemma portsLoop_events:
  "portsLoop k ingress svc svcNs svcName selStr ports models evs = (models', err, evs') \<Longrightarrow>
   \<exists>new. evs' = evs @ new \<and>
     (\<forall>e\<in>set new. (\<exists>sel. e = ListPods sel) \<or>
        (\<exists>key. e = GetEndpoints key \<and>
           (noAddresses k key \<longrightarrow> err = Some (NoReadyEndpoints (nn_Namespace key) (nn_Name key)))))"
proof (induction ports arbitrary: models evs)
  case Nil
  then show ?case by simp
next
  case (Cons port ports)
  obtain n gerr ev where g: "GetServicePortIntValue k svc port = (n, gerr, ev)"
    by (cases "GetServicePortIntValue k svc port") auto
  note gev = GetServicePortIntValue_events[OF g]
  let ?key = "\<lparr>nn_Namespace = svcNs, nn_Name = svcName\<rparr>"
  show ?case
  proof (cases gerr)
    case (Some e)
    with Cons.prems g have "evs' = evs @ ev"
      by (simp add: portsLoop_Cons del: portsLoop.simps)
    with gev show ?thesis by blast
  next
    case None
    show ?thesis
    proof (cases "getEndpoints k ?key")
      case (Inl e)
      with Cons.prems g None have "evs' = evs @ (ev @ [GetEndpoints ?key])"
        by (simp add: portsLoop_Cons del: portsLoop.simps)
      moreover have "\<not> noAddresses k ?key" using Inl by (simp add: noAddresses_def)
      ultimately show ?thesis using gev by auto
    next
      case (Inr ep)
      show ?thesis
      proof (cases "\<forall>sub\<in>set (Subsets ep). Addresses sub = []")
        case True
        with Cons.prems g None Inr have "evs' = evs @ (ev @ [GetEndpoints ?key])"
          "err = Some (NoReadyEndpoints (nn_Namespace ?key) (nn_Name ?key))"
          by (simp_all add: portsLoop_Cons del: portsLoop.simps)
        then show ?thesis using gev by auto
      next
        case False
        with Cons.prems g None Inr obtain m where
          "portsLoop k ingress svc svcNs svcName selStr ports (models @ [m])
            (evs @ ev @ [GetEndpoints ?key]) = (models', err, evs')"
          by (simp add: portsLoop_Cons del: portsLoop.simps)
        from Cons.IH[OF this] obtain new where
          n: "evs' = (evs @ ev @ [GetEndpoints ?key]) @ new" and
          r: "\<forall>e\<in>set new. (\<exists>sel. e = ListPods sel) \<or>
             (\<exists>key. e = GetEndpoints key \<and>
               (noAddresses k key \<longrightarrow> err = Some (NoReadyEndpoints (nn_Namespace key) (nn_Name key))))"
          by blast
        have "\<not> noAddresses k ?key" using Inr False by (simp add: noAddresses_def)
        with gev r have "\<forall>e\<in>set (ev @ GetEndpoints ?key # new). (\<exists>sel. e = ListPods sel) \<or>
             (\<exists>key. e = GetEndpoints key \<and>
               (noAddresses k key \<longrightarrow> err = Some (NoReadyEndpoints (nn_Namespace key) (nn_Name key))))"
          by auto
        moreover have "evs' = evs @ (ev @ GetEndpoints ?key # new)" using n by simp
        ultimately show ?thesis by blast
      qed
    qed
  qed
qed

subsection \<open>Either builder, and the events of a pass\<close>

lemma buildModels_models:
  "\<forall>m\<in>set (fst (buildModels k host ingress)). Endpoints m \<noteq> []"
proof (cases "ing_Annotations ingress ''loxilb.io/direct-loadbalance-service''")
  case None
  then have "buildModels k host ingress = createLoxiModelList k host ingress"
    by (simp add: buildModels_def)
  moreover have "\<forall>m\<in>set (fst (createLoxiModelList k host ingress)). Endpoints m \<noteq> []"
    using createLoxiModelList_models builtFor_endpoints by blast
  ultimately show ?thesis by simp
next
  case (Some svcName)
  then have b: "buildModels k host ingress = createDirectLoxiModelList k ingress"
    by (simp add: buildModels_def)
  define svcNs where "svcNs = (case ing_Annotations ingress ''loxilb.io/direct-loadbalance-namespace'' of
                          Some v \<Rightarrow> v | None \<Rightarrow> ing_Namespace ingress)"
  define selStr where "selStr = (case ing_Annotations ingress ''loxilb.io/epselect'' of
                           Some v \<Rightarrow> v | None \<Rightarrow> ''rr'')"
  show ?thesis
  proof (cases "getService k \<lparr>nn_Namespace = svcNs, nn_Name = svcName\<rparr>")
    case (Inl e)
    with Some have "fst (createDirectLoxiModelList k ingress) = []"
      by (simp add: createDirectLoxiModelList_def svcNs_def Let_def)
    with b show ?thesis by simp
  next
    case (Inr svc)
    obtain models err evs where p: "portsLoop k ingress svc svcNs svcName selStr (svc_Ports svc) []
        [GetService \<lparr>nn_Namespace = svcNs, nn_Name = svcName\<rparr>] = (models, err, evs)"
      by (cases "portsLoop k ingress svc svcNs svcName selStr (svc_Ports svc) []
        [GetService \<lparr>nn_Namespace = svcNs, nn_Name = svcName\<rparr>]") auto
    with Some Inr have "fst (createDirectLoxiModelList k ingress) = models"
      by (simp add: createDirectLoxiModelList_def svcNs_def selStr_def Let_def)
    with portsLoop_models[OF p] b show ?thesis by auto
  qed
qed

lemma buildModels_events:
  assumes "buildModels k host ingress = (models, err, bev)"
  shows "\<forall>e\<in>set bev. (\<exists>sel. e = ListPods sel) \<or> (\<exists>key. e = GetService key) \<or>
     (\<exists>key. e = GetEndpoints key \<and>
        (noAddresses k key \<longrightarrow> err = Some (NoReadyEndpoints (nn_Namespace key) (nn_Name key))))"
proof (cases "ing_Annotations ingress ''loxilb.io/direct-loadbalance-service''")
  case None
  with assms have "rulesLoop k host ingress (ing_Rules ingress) [] [] = (models, err, bev)"
    by (simp add: buildModels_def createLoxiModelList_def)
  from rulesLoop_events[OF this] have ev: "\<forall>e\<in>set bev. \<exists>key. e = GetEndpoints key \<and>
        (\<forall>ep. getEndpoints k key = Inr ep \<longrightarrow> (\<forall>sub\<in>set (Subsets ep). Addresses sub = []) \<longrightarrow>
           err = Some (NoReadyEndpoints (nn_Namespace key) (nn_Name key)))"
    by simp
  have conv: "noAddresses k key \<longrightarrow> X"
    if "\<forall>ep. getEndpoints k key = Inr ep \<longrightarrow> (\<forall>sub\<in>set (Subsets ep). Addresses sub = []) \<longrightarrow> X"
    for key X
    using that by (auto simp: noAddresses_def split: sum.splits)
  show ?thesis
  proof
    fix e assume "e \<in> set bev"
    with ev obtain key where "e = GetEndpoints key"
      "\<forall>ep. getEndpoints k key = Inr ep \<longrightarrow> (\<forall>sub\<in>set (Subsets ep). Addresses sub = []) \<longrightarrow>
           err = Some (NoReadyEndpoints (nn_Namespace key) (nn_Name key))"
      by blast
    with conv[of key "err = Some (NoReadyEndpoints (nn_Namespace key) (nn_Name key))"]
    show "(\<exists>sel. e = ListPods sel) \<or> (\<exists>key. e = GetService key) \<or>
     (\<exists>key. e = GetEndpoints key \<and>
        (noAddresses k key \<longrightarrow> err = Some (NoReadyEndpoints (nn_Namespace key) (nn_Name key))))"
      by blast
  qed
next
  case (Some svcName)
  with assms have b: "createDirectLoxiModelList k ingress = (models, err, bev)"
    by (simp add: buildModels_def)
  define svcNs where "svcNs = (case ing_Annotations ingress ''loxilb.io/direct-loadbalance-namespace'' of
                          Some v \<Rightarrow> v | None \<Rightarrow> ing_Namespace ingress)"
  define selStr where "selStr = (case ing_Annotations ingress ''loxilb.io/epselect'' of
                           Some v \<Rightarrow> v | None \<Rightarrow> ''rr'')"
  show ?thesis
  proof (cases "getService k \<lparr>nn_Namespace = svcNs, nn_Name = svcName\<rparr>")
    case (Inl e)
    with Some b have "bev = [GetService \<lparr>nn_Namespace = svcNs, nn_Name = svcName\<rparr>]"
      by (simp add: createDirectLoxiModelList_def svcNs_def Let_def)
    then show ?thesis by simp
  next
    case (Inr svc)
    with Some b have p: "portsLoop k ingress svc svcNs svcName selStr (svc_Ports svc) []
        [GetService \<lparr>nn_Namespace = svcNs, nn_Name = svcName\<rparr>] = (models, err, bev)"
      by (simp add: createDirectLoxiModelList_def svcNs_def selStr_def Let_def)
    from portsLoop_events[OF p] show ?thesis by auto
  qed
qed

lemma updateIngressStatus_events:
  "\<forall>e\<in>set (snd (snd (updateIngressStatus k ingress))).
     (\<exists>key. e = GetService key) \<or> (\<exists>i. e = StatusUpdate i)"
  by (auto simp: updateIngressStatus_def Let_def split: option.splits sum.splits)

lemma modelsLoop_subset:
  "set (modelsLoop models items []) \<subseteq> set models"
  by (simp add: modelsLoop_eq)

text \<open>
  The events of a pass that found its ingress: the list call, the get, the events of the
  builder, and then deletes, or creates of models of the builder (only when it returned no
  error) followed by the events of the status reflector.
\<close>

lemma Reconcile_found_events:
  assumes l: "lbList c s = (Inr currLBList, s1)" and g: "getIngress k req = Inr ingress"
    and b: "buildModels k (lc_Host c) ingress = (models, berr, bev)"
  shows "\<exists>rest. snd (snd (Reconcile k c req s)) = [LbList, GetIngress req] @ bev @ rest \<and>
     (\<forall>e\<in>set rest. (\<exists>n. e = LbDeleteByName n) \<or> (\<exists>key. e = GetService key) \<or>
        (\<exists>i. e = StatusUpdate i) \<or> (\<exists>m\<in>set models. e = LbCreate m \<and> berr = None)) \<and>
     (berr \<noteq> None \<longrightarrow> snd (fst (Reconcile k c req s)) = berr)"
proof (cases berr)
  case (Some e)
  let ?d = "snd (deleteBoth (nn_Namespace req @ ''_'' @ nn_Name req \<in> (\<lambda>m. Name (Service m)) ` set currLBList)
             (nn_Namespace req @ ''_'' @ nn_Name req @ ''_https'' \<in> (\<lambda>m. Name (Service m)) ` set currLBList)
             c (nn_Namespace req @ ''_'' @ nn_Name req)
             (nn_Namespace req @ ''_'' @ nn_Name req @ ''_https'') s1)"
  from Reconcile_build_error[OF l g b[unfolded Some]]
  have "snd (snd (Reconcile k c req s)) = [LbList, GetIngress req] @ bev @ ?d"
    and "snd (fst (Reconcile k c req s)) = berr"
    by (simp_all add: Some)
  moreover have "\<forall>e\<in>set ?d. \<exists>n. e = LbDeleteByName n"
    by (auto simp: deleteBoth_events)
  ultimately show ?thesis by blast
next
  case None
  show ?thesis
  proof (cases "modelsLoop models currLBList [] = []")
    case True
    from Reconcile_converged[OF l g b[unfolded None] True] None
    have "snd (snd (Reconcile k c req s)) = [LbList, GetIngress req] @ bev @ []" by simp
    with None show ?thesis by (metis empty_iff list.set(1))
  next
    case False
    obtain cerr s2 evs where a:
      "applyLoop c (modelsLoop models currLBList []) s1 ([LbList, GetIngress req] @ bev) = (cerr, s2, evs)"
      by (cases "applyLoop c (modelsLoop models currLBList []) s1 ([LbList, GetIngress req] @ bev)") auto
    from applyLoop_events[OF a] obtain n where
      evs: "evs = ([LbList, GetIngress req] @ bev) @ map LbCreate (take n (modelsLoop models currLBList []))"
      by blast
    have sub: "set (take n (modelsLoop models currLBList [])) \<subseteq> set models"
      using modelsLoop_subset set_take_subset by fast
    define rest where "rest = map LbCreate (take n (modelsLoop models currLBList [])) @
        (case cerr of Some e \<Rightarrow> [] | None \<Rightarrow> snd (snd (updateIngressStatus k ingress)))"
    from Reconcile_apply[OF l g b[unfolded None] False a] evs
    have "snd (snd (Reconcile k c req s)) = [LbList, GetIngress req] @ bev @ rest"
      by (cases cerr) (simp_all add: rest_def)
    moreover have "\<forall>e\<in>set rest. (\<exists>n. e = LbDeleteByName n) \<or> (\<exists>key. e = GetService key) \<or>
        (\<exists>i. e = StatusUpdate i) \<or> (\<exists>m\<in>set models. e = LbCreate m \<and> berr = None)"
      using sub None updateIngressStatus_events[of k ingress]
      by (cases cerr) (auto simp: rest_def)
    ultimately show ?thesis using None by blast
  qed
qed

subsection \<open>Backends without ready addresses\<close>

text \<open>
  C3. Every rule model that a pass sends to the create operation of the remote store has an
  endpoint, and so has every model either builder returns. When a pass resolves a backend
  whose Endpoints object lists no address, it ends with the error \<open>NoReadyEndpoints\<close> of that
  backend and sends no create at all.
\<close>

theorem C3_no_ready_endpoints:
  "(\<forall>m. LbCreate m \<in> set (snd (snd (Reconcile k c req s))) \<longrightarrow> Endpoints m \<noteq> []) \<and>
   (\<forall>key. GetEndpoints key \<in> set (snd (snd (Reconcile k c req s))) \<and> noAddresses k key \<longrightarrow>
      snd (fst (Reconcile k c req s)) = Some (NoReadyEndpoints (nn_Namespace key) (nn_Name key)) \<and>
      (\<forall>m. LbCreate m \<notin> set (snd (snd (Reconcile k c req s))))) \<and>
   (\<forall>m\<in>set (fst (buildModels k host ingress)). Endpoints m \<noteq> [])"
proof -
  let ?evs = "snd (snd (Reconcile k c req s))"
  have quiet: "(\<forall>m. LbCreate m \<in> set ?evs \<longrightarrow> Endpoints m \<noteq> []) \<and>
   (\<forall>key. GetEndpoints key \<in> set ?evs \<and> noAddresses k key \<longrightarrow>
      snd (fst (Reconcile k c req s)) = Some (NoReadyEndpoints (nn_Namespace key) (nn_Name key)) \<and>
      (\<forall>m. LbCreate m \<notin> set ?evs))"
    if "\<forall>e\<in>set ?evs. e = LbList \<or> e = GetIngress req \<or> (\<exists>n. e = LbDeleteByName n)"
    using that by blast
  obtain r s1 where l: "lbList c s = (r, s1)" by (cases "lbList c s") auto
  have main: "(\<forall>m. LbCreate m \<in> set ?evs \<longrightarrow> Endpoints m \<noteq> []) \<and>
   (\<forall>key. GetEndpoints key \<in> set ?evs \<and> noAddresses k key \<longrightarrow>
      snd (fst (Reconcile k c req s)) = Some (NoReadyEndpoints (nn_Namespace key) (nn_Name key)) \<and>
      (\<forall>m. LbCreate m \<notin> set ?evs))"
  proof (cases r)
    case (Inl err)
    with l have "?evs = [LbList]" by (simp add: Reconcile_list_error)
    then show ?thesis by (intro quiet) simp
  next
    case (Inr currLBList)
    note l' = l[unfolded Inr]
    show ?thesis
    proof (cases "getIngress k req")
      case (Inl err)
      show ?thesis
      proof (cases "IsNotFound err")
        case True
        from Reconcile_deleted[OF l' Inl True]
        have "\<forall>e\<in>set ?evs. e = LbList \<or> e = GetIngress req \<or> (\<exists>n. e = LbDeleteByName n)"
          by (auto simp: deleteBoth_events)
        then show ?thesis by (rule quiet)
      next
        case False
        from Reconcile_get_error[OF l' Inl False]
        have "?evs = [LbList, GetIngress req]" by simp
        then show ?thesis by (intro quiet) simp
      qed
    next
      case (Inr ingress')
      obtain models berr bev where b: "buildModels k (lc_Host c) ingress' = (models, berr, bev)"
        by (cases "buildModels k (lc_Host c) ingress'") auto
      from Reconcile_found_events[OF l' Inr b] obtain rest where
        evs: "?evs = [LbList, GetIngress req] @ bev @ rest" and
        rest: "\<forall>e\<in>set rest. (\<exists>n. e = LbDeleteByName n) \<or> (\<exists>key. e = GetService key) \<or>
          (\<exists>i. e = StatusUpdate i) \<or> (\<exists>m\<in>set models. e = LbCreate m \<and> berr = None)" and
        err: "berr \<noteq> None \<longrightarrow> snd (fst (Reconcile k c req s)) = berr"
        by blast
      note bev = buildModels_events[OF b]
      have ne: "\<forall>m\<in>set models. Endpoints m \<noteq> []"
        using buildModels_models[of k "lc_Host c" ingress'] b by simp
      have creates: "LbCreate m \<in> set ?evs \<Longrightarrow> m \<in> set models \<and> berr = None" for m
        using evs rest bev by auto
      have gets: "GetEndpoints key \<in> set ?evs \<Longrightarrow> noAddresses k key \<Longrightarrow>
          berr = Some (NoReadyEndpoints (nn_Namespace key) (nn_Name key))" for key
        using evs rest bev by auto
      show ?thesis
      proof (intro conjI allI impI)
        fix m assume "LbCreate m \<in> set ?evs"
        with creates ne show "Endpoints m \<noteq> []" by blast
      next
        fix key assume a: "GetEndpoints key \<in> set ?evs \<and> noAddresses k key"
        with gets have e: "berr = Some (NoReadyEndpoints (nn_Namespace key) (nn_Name key))" by blast
        with err show "snd (fst (Reconcile k c req s)) =
            Some (NoReadyEndpoints (nn_Namespace key) (nn_Name key))" by simp
        fix m from e creates show "LbCreate m \<notin> set ?evs" by auto
      qed
    qed
  qed
  with buildModels_models[of k host ingress] show ?thesis by blast
qed

lemma unreadyStore_pass:
  "Reconcile unreadyStore (remoteStore ''1.2.3.4'' [] (\<lambda>m. None)) nsApp [] =
     ((\<lparr>RequeueAfter = 0\<rparr>, Some (NoReadyEndpoints ''ns'' ''svc'')), [],
      [LbList, GetIngress nsApp, GetEndpoints nsSvc])"
  by (simp add: Reconcile_def buildModels_def builder_defs deleteBoth_def deleteIf_def
        unreadyStore_def fixture_defs Let_def)

theorem C3_no_ready_endpoints_witness:
  "GetEndpoints nsSvc \<in> set (snd (snd (Reconcile unreadyStore
       (remoteStore ''1.2.3.4'' [] (\<lambda>m. None)) nsApp []))) \<and>
   noAddresses unreadyStore nsSvc \<and>
   snd (fst (Reconcile unreadyStore (remoteStore ''1.2.3.4'' [] (\<lambda>m. None)) nsApp [])) =
     Some (NoReadyEndpoints ''ns'' ''svc'') \<and>
   LbCreate tlsModelA \<in> set (snd (snd (Reconcile tlsStore
       (remoteStore ''1.2.3.4'' [] (\<lambda>m. None)) nsApp []))) \<and>
   Endpoints tlsModelA \<noteq> []"
proof -
  have g: "GetEndpoints nsSvc \<in> set (snd (snd (Reconcile unreadyStore
       (remoteStore ''1.2.3.4'' [] (\<lambda>m. None)) nsApp [])))"
    by (simp add: unreadyStore_pass)
  have n: "noAddresses unreadyStore nsSvc"
    by (simp add: noAddresses_def unreadyStore_def fixture_defs)
  from C3_no_ready_endpoints [of unreadyStore "remoteStore ''1.2.3.4'' [] (\<lambda>m. None)" nsApp "[]"] g n
  have e: "snd (fst (Reconcile unreadyStore (remoteStore ''1.2.3.4'' [] (\<lambda>m. None)) nsApp [])) =
     Some (NoReadyEndpoints (nn_Namespace nsSvc) (nn_Name nsSvc))"
    by blast
  have c: "LbCreate tlsModelA \<in> set (snd (snd (Reconcile tlsStore
       (remoteStore ''1.2.3.4'' [] (\<lambda>m. None)) nsApp [])))"
    by (simp add: Reconcile_def buildModels_def builder_defs updateIngressStatus_def
          statusSourceKey_def tlsStore_def tlsModelA_def fixture_defs Let_def)
  from C3_no_ready_endpoints [of tlsStore "remoteStore ''1.2.3.4'' [] (\<lambda>m. None)" nsApp "[]"] c
  have "Endpoints tlsModelA \<noteq> []" by blast
  with g n e c show ?thesis by (simp add: nsSvc_def)
qed

subsection \<open>The status reflector\<close>

lemma existLoopStatus_iff:
  "existLoopStatus st ing \<longleftrightarrow>
     (\<exists>i\<in>set st. (ilbi_IP i \<noteq> [] \<and> ilbi_IP i = lbi_IP ing) \<or>
                  (ilbi_Hostname i \<noteq> [] \<and> ilbi_Hostname i = lbi_Hostname ing))"
  by (induction st) auto

lemma portStatusLoop_eq:
  "portStatusLoop ports acc =
     acc @ map (\<lambda>port. \<lparr>ips_Port = ps_Port port, ips_Protocol = ps_Protocol port,
                          ips_Error = ps_Error port\<rparr>) ports"
  by (induction ports arbitrary: acc) simp_all

lemma statusLoop_appends:
  "\<exists>new. statusLoop ings ingress = ingress\<lparr>ing_Status := ing_Status ingress @ new\<rparr> \<and>
     (\<forall>n\<in>set new. \<exists>ing\<in>set ings.
         \<not> checkIngressLoadBalancerIngressExist ingress ing \<and>
         n = \<lparr>ilbi_IP = lbi_IP ing, ilbi_Hostname = lbi_Hostname ing,
               ilbi_Ports = portStatusLoop (lbi_Ports ing) []\<rparr>)"
proof (induction ings arbitrary: ingress)
  case Nil
  have "statusLoop [] ingress = ingress\<lparr>ing_Status := ing_Status ingress @ []\<rparr>" by simp
  then show ?case by (metis empty_iff list.set(1))
next
  case (Cons ing ings)
  show ?case
  proof (cases "checkIngressLoadBalancerIngressExist ingress ing")
    case True
    from Cons.IH[of ingress] obtain new where
      "statusLoop ings ingress = ingress\<lparr>ing_Status := ing_Status ingress @ new\<rparr>"
      "\<forall>n\<in>set new. \<exists>ing\<in>set ings.
         \<not> checkIngressLoadBalancerIngressExist ingress ing \<and>
         n = \<lparr>ilbi_IP = lbi_IP ing, ilbi_Hostname = lbi_Hostname ing,
               ilbi_Ports = portStatusLoop (lbi_Ports ing) []\<rparr>"
      by blast
    with True show ?thesis by auto
  next
    case False
    define e where "e = \<lparr>ilbi_IP = lbi_IP ing, ilbi_Hostname = lbi_Hostname ing,
               ilbi_Ports = portStatusLoop (lbi_Ports ing) []\<rparr>"
    define ingress' where "ingress' = ingress\<lparr>ing_Status := ing_Status ingress @ [e]\<rparr>"
    from Cons.IH[of ingress'] obtain new where
      s: "statusLoop ings ingress' = ingress'\<lparr>ing_Status := ing_Status ingress' @ new\<rparr>" and
      n: "\<forall>n\<in>set new. \<exists>ing\<in>set ings.
         \<not> checkIngressLoadBalancerIngressExist ingress' ing \<and>
         n = \<lparr>ilbi_IP = lbi_IP ing, ilbi_Hostname = lbi_Hostname ing,
               ilbi_Ports = portStatusLoop (lbi_Ports ing) []\<rparr>"
      by blast
    have mono: "\<not> checkIngressLoadBalancerIngressExist ingress' x \<Longrightarrow>
        \<not> checkIngressLoadBalancerIngressExist ingress x" for x
      by (auto simp: checkIngressLoadBalancerIngressExist_def existLoopStatus_iff ingress'_def)
    have "statusLoop (ing # ings) ingress = ingress\<lparr>ing_Status := ing_Status ingress @ (e # new)\<rparr>"
      using False s by (simp add: ingress'_def e_def)
    moreover have "\<forall>n\<in>set (e # new). \<exists>x\<in>set (ing # ings).
         \<not> checkIngressLoadBalancerIngressExist ingress x \<and>
         n = \<lparr>ilbi_IP = lbi_IP x, ilbi_Hostname = lbi_Hostname x,
               ilbi_Ports = portStatusLoop (lbi_Ports x) []\<rparr>"
      using False n mono by (auto simp: e_def)
    ultimately show ?thesis by blast
  qed
qed

lemma statusLoop_all_known:
  "\<forall>ing\<in>set ings. checkIngressLoadBalancerIngressExist ingress ing \<Longrightarrow>
   statusLoop ings ingress = ingress"
  by (induction ings) simp_all

lemma statusLoop_extends:
  "set (ing_Status ingress) \<subseteq> set (ing_Status (statusLoop ings ingress))"
proof -
  from statusLoop_appends[of ings ingress] obtain new where
    "statusLoop ings ingress = ingress\<lparr>ing_Status := ing_Status ingress @ new\<rparr>" by blast
  then show ?thesis by simp
qed

lemma statusLoop_covers:
  "\<forall>ing\<in>set ings.
     \<lparr>ilbi_IP = lbi_IP ing, ilbi_Hostname = lbi_Hostname ing,
       ilbi_Ports = portStatusLoop (lbi_Ports ing) []\<rparr> \<in> set (ing_Status (statusLoop ings ingress)) \<or>
     checkIngressLoadBalancerIngressExist (statusLoop ings ingress) ing"
proof (induction ings arbitrary: ingress)
  case Nil
  then show ?case by simp
next
  case (Cons ing ings)
  show ?case
  proof (cases "checkIngressLoadBalancerIngressExist ingress ing")
    case True
    then have "checkIngressLoadBalancerIngressExist (statusLoop ings ingress) ing"
      using statusLoop_extends[of ingress ings]
      by (auto simp: checkIngressLoadBalancerIngressExist_def existLoopStatus_iff)
    with True Cons.IH[of ingress] show ?thesis by simp
  next
    case False
    define e where "e = \<lparr>ilbi_IP = lbi_IP ing, ilbi_Hostname = lbi_Hostname ing,
               ilbi_Ports = portStatusLoop (lbi_Ports ing) []\<rparr>"
    define ingress' where "ingress' = ingress\<lparr>ing_Status := ing_Status ingress @ [e]\<rparr>"
    have "e \<in> set (ing_Status ingress')" by (simp add: ingress'_def)
    with statusLoop_extends[of ingress' ings]
    have "e \<in> set (ing_Status (statusLoop ings ingress'))" by blast
    moreover have "statusLoop (ing # ings) ingress = statusLoop ings ingress'"
      using False by (simp add: ingress'_def e_def)
    ultimately show ?thesis using Cons.IH[of ingress'] by (simp add: e_def)
  qed
qed

lemma statusLoop_append:
  "statusLoop (pre @ post) ingress = statusLoop post (statusLoop pre ingress)"
  by (induction pre arbitrary: ingress) simp_all

lemma statusLoop_fresh:
  "\<exists>new. statusLoop ings ingress = ingress\<lparr>ing_Status := ing_Status ingress @ new\<rparr> \<and>
     (\<forall>j<length new. \<forall>i\<in>set (ing_Status ingress @ take j new).
         \<not> (ilbi_IP i \<noteq> [] \<and> ilbi_IP i = ilbi_IP (new ! j)) \<and>
         \<not> (ilbi_Hostname i \<noteq> [] \<and> ilbi_Hostname i = ilbi_Hostname (new ! j)))"
proof (induction ings arbitrary: ingress)
  case Nil
  have "statusLoop [] ingress = ingress\<lparr>ing_Status := ing_Status ingress @ []\<rparr>" by simp
  then show ?case by (metis length_0_conv not_less_zero)
next
  case (Cons ing ings)
  show ?case
  proof (cases "checkIngressLoadBalancerIngressExist ingress ing")
    case True
    with Cons.IH[of ingress] show ?thesis by simp
  next
    case False
    define e where "e = \<lparr>ilbi_IP = lbi_IP ing, ilbi_Hostname = lbi_Hostname ing,
               ilbi_Ports = portStatusLoop (lbi_Ports ing) []\<rparr>"
    define ingress' where "ingress' = ingress\<lparr>ing_Status := ing_Status ingress @ [e]\<rparr>"
    from Cons.IH[of ingress'] obtain new where
      s: "statusLoop ings ingress' = ingress'\<lparr>ing_Status := ing_Status ingress' @ new\<rparr>" and
      f: "\<forall>j<length new. \<forall>i\<in>set (ing_Status ingress' @ take j new).
         \<not> (ilbi_IP i \<noteq> [] \<and> ilbi_IP i = ilbi_IP (new ! j)) \<and>
         \<not> (ilbi_Hostname i \<noteq> [] \<and> ilbi_Hostname i = ilbi_Hostname (new ! j))"
      by blast
    have first: "\<forall>i\<in>set (ing_Status ingress).
         \<not> (ilbi_IP i \<noteq> [] \<and> ilbi_IP i = ilbi_IP e) \<and>
         \<not> (ilbi_Hostname i \<noteq> [] \<and> ilbi_Hostname i = ilbi_Hostname e)"
      using False by (auto simp: checkIngressLoadBalancerIngressExist_def existLoopStatus_iff e_def)
    have eq: "statusLoop (ing # ings) ingress = ingress\<lparr>ing_Status := ing_Status ingress @ (e # new)\<rparr>"
      using False s by (simp add: ingress'_def e_def)
    have "\<forall>i\<in>set (ing_Status ingress @ take j (e # new)).
         \<not> (ilbi_IP i \<noteq> [] \<and> ilbi_IP i = ilbi_IP ((e # new) ! j)) \<and>
         \<not> (ilbi_Hostname i \<noteq> [] \<and> ilbi_Hostname i = ilbi_Hostname ((e # new) ! j))"
      if "j < length (e # new)" for j
    proof (cases j)
      case 0
      with first show ?thesis by simp
    next
      case (Suc j')
      with that have "j' < length new" by simp
      with f have "\<forall>i\<in>set (ing_Status ingress' @ take j' new).
         \<not> (ilbi_IP i \<noteq> [] \<and> ilbi_IP i = ilbi_IP (new ! j')) \<and>
         \<not> (ilbi_Hostname i \<noteq> [] \<and> ilbi_Hostname i = ilbi_Hostname (new ! j'))" by blast
      then show ?thesis by (simp add: Suc ingress'_def)
    qed
    with eq show ?thesis by blast
  qed
qed

text \<open>
  C9, as the code has it. The reflector goes through the entries of the status source in
  order. It skips an entry exactly when some entry of the status of the ingress as it stands
  when the entry is reached (the recorded entries and those appended before it in the same
  pass) has the same non-empty IP or the same non-empty hostname, and appends the entry
  otherwise. So the appended entries come from entries of the source that are not such
  duplicates of the recorded status, none of them is such a duplicate of a recorded entry or
  of an entry appended before it, every entry of the source is in the end either appended or
  such a duplicate of an entry of the status, and when every entry is a duplicate of the
  recorded status the ingress is left as it is. Once the status source has been fetched the
  reflector writes the status, one write, whether or not an entry was appended.
\<close>

theorem C9_status_reflector:
  assumes "statusSourceKey ingress = Some key" and "getService k key = Inr svc"
  shows "(\<forall>ing. checkIngressLoadBalancerIngressExist ingress ing \<longleftrightarrow>
            (\<exists>i\<in>set (ing_Status ingress).
                (ilbi_IP i \<noteq> [] \<and> ilbi_IP i = lbi_IP ing) \<or>
                (ilbi_Hostname i \<noteq> [] \<and> ilbi_Hostname i = lbi_Hostname ing))) \<and>
         (\<exists>new. statusLoop (svc_Status svc) ingress =
                   ingress\<lparr>ing_Status := ing_Status ingress @ new\<rparr> \<and>
            (\<forall>n\<in>set new. \<exists>ing\<in>set (svc_Status svc).
                \<not> checkIngressLoadBalancerIngressExist ingress ing \<and>
                n = \<lparr>ilbi_IP = lbi_IP ing, ilbi_Hostname = lbi_Hostname ing,
                      ilbi_Ports = map (\<lambda>port. \<lparr>ips_Port = ps_Port port,
                                     ips_Protocol = ps_Protocol port, ips_Error = ps_Error port\<rparr>)
                                     (lbi_Ports ing)\<rparr>) \<and>
            (\<forall>j<length new. \<forall>i\<in>set (ing_Status ingress @ take j new).
                \<not> (ilbi_IP i \<noteq> [] \<and> ilbi_IP i = ilbi_IP (new ! j)) \<and>
                \<not> (ilbi_Hostname i \<noteq> [] \<and> ilbi_Hostname i = ilbi_Hostname (new ! j)))) \<and>
         statusLoop [] ingress = ingress \<and>
         (\<forall>pre ing post.
            statusLoop (pre @ ing # post) ingress =
            statusLoop post
              (if checkIngressLoadBalancerIngressExist (statusLoop pre ingress) ing
               then statusLoop pre ingress
               else (statusLoop pre ingress)\<lparr>ing_Status :=
                      ing_Status (statusLoop pre ingress) @
                      [\<lparr>ilbi_IP = lbi_IP ing, ilbi_Hostname = lbi_Hostname ing,
                        ilbi_Ports = map (\<lambda>port. \<lparr>ips_Port = ps_Port port,
                                       ips_Protocol = ps_Protocol port, ips_Error = ps_Error port\<rparr>)
                                       (lbi_Ports ing)\<rparr>]\<rparr>)) \<and>
         (\<forall>ing\<in>set (svc_Status svc).
            \<lparr>ilbi_IP = lbi_IP ing, ilbi_Hostname = lbi_Hostname ing,
              ilbi_Ports = map (\<lambda>port. \<lparr>ips_Port = ps_Port port,
                             ips_Protocol = ps_Protocol port, ips_Error = ps_Error port\<rparr>)
                             (lbi_Ports ing)\<rparr>
              \<in> set (ing_Status (statusLoop (svc_Status svc) ingress)) \<or>
            checkIngressLoadBalancerIngressExist (statusLoop (svc_Status svc) ingress) ing) \<and>
         ((\<forall>ing\<in>set (svc_Status svc). checkIngressLoadBalancerIngressExist ingress ing) \<longrightarrow>
            statusLoop (svc_Status svc) ingress = ingress) \<and>
         updateIngressStatus k ingress =
           (statusUpdate k (statusLoop (svc_Status svc) ingress),
            statusLoop (svc_Status svc) ingress,
            [GetService key, StatusUpdate (statusLoop (svc_Status svc) ingress)])"
proof (intro conjI)
  show "\<forall>ing. checkIngressLoadBalancerIngressExist ingress ing \<longleftrightarrow>
            (\<exists>i\<in>set (ing_Status ingress).
                (ilbi_IP i \<noteq> [] \<and> ilbi_IP i = lbi_IP ing) \<or>
                (ilbi_Hostname i \<noteq> [] \<and> ilbi_Hostname i = lbi_Hostname ing))"
    by (simp add: checkIngressLoadBalancerIngressExist_def existLoopStatus_iff)
  show "\<exists>new. statusLoop (svc_Status svc) ingress =
                   ingress\<lparr>ing_Status := ing_Status ingress @ new\<rparr> \<and>
            (\<forall>n\<in>set new. \<exists>ing\<in>set (svc_Status svc).
                \<not> checkIngressLoadBalancerIngressExist ingress ing \<and>
                n = \<lparr>ilbi_IP = lbi_IP ing, ilbi_Hostname = lbi_Hostname ing,
                      ilbi_Ports = map (\<lambda>port. \<lparr>ips_Port = ps_Port port,
                                     ips_Protocol = ps_Protocol port, ips_Error = ps_Error port\<rparr>)
                                     (lbi_Ports ing)\<rparr>) \<and>
            (\<forall>j<length new. \<forall>i\<in>set (ing_Status ingress @ take j new).
                \<not> (ilbi_IP i \<noteq> [] \<and> ilbi_IP i = ilbi_IP (new ! j)) \<and>
                \<not> (ilbi_Hostname i \<noteq> [] \<and> ilbi_Hostname i = ilbi_Hostname (new ! j)))"
  proof -
    from statusLoop_appends[of "svc_Status svc" ingress] obtain new where
      a: "statusLoop (svc_Status svc) ingress = ingress\<lparr>ing_Status := ing_Status ingress @ new\<rparr>" and
      b: "\<forall>n\<in>set new. \<exists>ing\<in>set (svc_Status svc).
                \<not> checkIngressLoadBalancerIngressExist ingress ing \<and>
                n = \<lparr>ilbi_IP = lbi_IP ing, ilbi_Hostname = lbi_Hostname ing,
                      ilbi_Ports = map (\<lambda>port. \<lparr>ips_Port = ps_Port port,
                                     ips_Protocol = ps_Protocol port, ips_Error = ps_Error port\<rparr>)
                                     (lbi_Ports ing)\<rparr>"
      by (auto simp: portStatusLoop_eq)
    from statusLoop_fresh[of "svc_Status svc" ingress] obtain new' where
      a': "statusLoop (svc_Status svc) ingress = ingress\<lparr>ing_Status := ing_Status ingress @ new'\<rparr>" and
      c: "\<forall>j<length new'. \<forall>i\<in>set (ing_Status ingress @ take j new').
                \<not> (ilbi_IP i \<noteq> [] \<and> ilbi_IP i = ilbi_IP (new' ! j)) \<and>
                \<not> (ilbi_Hostname i \<noteq> [] \<and> ilbi_Hostname i = ilbi_Hostname (new' ! j))"
      by blast
    from a a' have "ing_Status (ingress\<lparr>ing_Status := ing_Status ingress @ new\<rparr>) =
        ing_Status (ingress\<lparr>ing_Status := ing_Status ingress @ new'\<rparr>)"
      by simp
    then have "new' = new" by simp
    with a b c show ?thesis by blast
  qed
  show "statusLoop [] ingress = ingress"
    by simp
  show "\<forall>pre ing post.
            statusLoop (pre @ ing # post) ingress =
            statusLoop post
              (if checkIngressLoadBalancerIngressExist (statusLoop pre ingress) ing
               then statusLoop pre ingress
               else (statusLoop pre ingress)\<lparr>ing_Status :=
                      ing_Status (statusLoop pre ingress) @
                      [\<lparr>ilbi_IP = lbi_IP ing, ilbi_Hostname = lbi_Hostname ing,
                        ilbi_Ports = map (\<lambda>port. \<lparr>ips_Port = ps_Port port,
                                       ips_Protocol = ps_Protocol port, ips_Error = ps_Error port\<rparr>)
                                       (lbi_Ports ing)\<rparr>]\<rparr>)"
  proof (intro allI)
    fix pre ing post
    have "statusLoop (pre @ ing # post) ingress = statusLoop (ing # post) (statusLoop pre ingress)"
      by (rule statusLoop_append)
    then show "statusLoop (pre @ ing # post) ingress =
            statusLoop post
              (if checkIngressLoadBalancerIngressExist (statusLoop pre ingress) ing
               then statusLoop pre ingress
               else (statusLoop pre ingress)\<lparr>ing_Status :=
                      ing_Status (statusLoop pre ingress) @
                      [\<lparr>ilbi_IP = lbi_IP ing, ilbi_Hostname = lbi_Hostname ing,
                        ilbi_Ports = map (\<lambda>port. \<lparr>ips_Port = ps_Port port,
                                       ips_Protocol = ps_Protocol port, ips_Error = ps_Error port\<rparr>)
                                       (lbi_Ports ing)\<rparr>]\<rparr>)"
      by (simp add: portStatusLoop_eq)
  qed
  show "\<forall>ing\<in>set (svc_Status svc).
            \<lparr>ilbi_IP = lbi_IP ing, ilbi_Hostname = lbi_Hostname ing,
              ilbi_Ports = map (\<lambda>port. \<lparr>ips_Port = ps_Port port,
                             ips_Protocol = ps_Protocol port, ips_Error = ps_Error port\<rparr>)
                             (lbi_Ports ing)\<rparr>
              \<in> set (ing_Status (statusLoop (svc_Status svc) ingress)) \<or>
            checkIngressLoadBalancerIngressExist (statusLoop (svc_Status svc) ingress) ing"
    using statusLoop_covers[of "svc_Status svc" ingress] by (simp add: portStatusLoop_eq)
  show "(\<forall>ing\<in>set (svc_Status svc). checkIngressLoadBalancerIngressExist ingress ing) \<longrightarrow>
            statusLoop (svc_Status svc) ingress = ingress"
    using statusLoop_all_known by blast
  show "updateIngressStatus k ingress =
           (statusUpdate k (statusLoop (svc_Status svc) ingress),
            statusLoop (svc_Status svc) ingress,
            [GetService key, StatusUpdate (statusLoop (svc_Status svc) ingress)])"
    using assms by (simp add: updateIngressStatus_def Let_def)
qed

lemmas status_defs = defaultLb_def statusIngress_def lbService_def statusStore_def
  statusSourceKey_def checkIngressLoadBalancerIngressExist_def

theorem C9_status_reflector_witness:
  "statusSourceKey statusIngress = Some defaultLb \<and>
   getService (statusStore [''192.168.0.10'', ''192.168.0.11'']) defaultLb =
     Inr (lbService [''192.168.0.10'', ''192.168.0.11'']) \<and>
   snd (snd (updateIngressStatus (statusStore [''192.168.0.10'', ''192.168.0.11'']) statusIngress)) =
     [GetService defaultLb,
      StatusUpdate (statusIngress\<lparr>ing_Status :=
         [\<lparr>ilbi_IP = ''192.168.0.10'', ilbi_Hostname = [], ilbi_Ports = []\<rparr>,
          \<lparr>ilbi_IP = ''192.168.0.11'', ilbi_Hostname = [],
            ilbi_Ports = [\<lparr>ips_Port = 80, ips_Protocol = ''TCP'', ips_Error = None\<rparr>]\<rparr>]\<rparr>)] \<and>
   getService (statusStore [''192.168.0.10'']) defaultLb = Inr (lbService [''192.168.0.10'']) \<and>
   statusLoop (svc_Status (lbService [''192.168.0.10''])) statusIngress = statusIngress \<and>
   getService (statusStore [''192.168.0.11'', ''192.168.0.11'']) defaultLb =
     Inr (lbService [''192.168.0.11'', ''192.168.0.11'']) \<and>
   ing_Status (statusLoop (svc_Status (lbService [''192.168.0.11'', ''192.168.0.11''])) statusIngress) =
     [\<lparr>ilbi_IP = ''192.168.0.10'', ilbi_Hostname = [], ilbi_Ports = []\<rparr>,
      \<lparr>ilbi_IP = ''192.168.0.11'', ilbi_Hostname = [],
        ilbi_Ports = [\<lparr>ips_Port = 80, ips_Protocol = ''TCP'', ips_Error = None\<rparr>]\<rparr>]"
proof -
  have h1: "statusSourceKey statusIngress = Some defaultLb"
    by (simp add: status_defs fixture_defs)
  have h2: "getService (statusStore [''192.168.0.10'', ''192.168.0.11'']) defaultLb =
     Inr (lbService [''192.168.0.10'', ''192.168.0.11''])"
    by (simp add: status_defs fixture_defs)
  have l: "statusLoop (svc_Status (lbService [''192.168.0.10'', ''192.168.0.11''])) statusIngress =
      statusIngress\<lparr>ing_Status :=
         [\<lparr>ilbi_IP = ''192.168.0.10'', ilbi_Hostname = [], ilbi_Ports = []\<rparr>,
          \<lparr>ilbi_IP = ''192.168.0.11'', ilbi_Hostname = [],
            ilbi_Ports = [\<lparr>ips_Port = 80, ips_Protocol = ''TCP'', ips_Error = None\<rparr>]\<rparr>]\<rparr>"
    by (simp add: status_defs fixture_defs)
  from C9_status_reflector[OF h1 h2]
  have "snd (snd (updateIngressStatus (statusStore [''192.168.0.10'', ''192.168.0.11'']) statusIngress)) =
     [GetService defaultLb,
      StatusUpdate (statusLoop (svc_Status (lbService [''192.168.0.10'', ''192.168.0.11''])) statusIngress)]"
    by simp
  with l have one: "snd (snd (updateIngressStatus (statusStore [''192.168.0.10'', ''192.168.0.11'']) statusIngress)) =
     [GetService defaultLb,
      StatusUpdate (statusIngress\<lparr>ing_Status :=
         [\<lparr>ilbi_IP = ''192.168.0.10'', ilbi_Hostname = [], ilbi_Ports = []\<rparr>,
          \<lparr>ilbi_IP = ''192.168.0.11'', ilbi_Hostname = [],
            ilbi_Ports = [\<lparr>ips_Port = 80, ips_Protocol = ''TCP'', ips_Error = None\<rparr>]\<rparr>]\<rparr>)]"
    by simp
  have h3: "getService (statusStore [''192.168.0.10'']) defaultLb = Inr (lbService [''192.168.0.10''])"
    by (simp add: status_defs fixture_defs)
  have known: "\<forall>ing\<in>set (svc_Status (lbService [''192.168.0.10''])).
      checkIngressLoadBalancerIngressExist statusIngress ing"
    by (simp add: status_defs fixture_defs)
  from C9_status_reflector[OF h1 h3] known
  have two: "statusLoop (svc_Status (lbService [''192.168.0.10''])) statusIngress = statusIngress"
    by blast
  have h4: "getService (statusStore [''192.168.0.11'', ''192.168.0.11'']) defaultLb =
     Inr (lbService [''192.168.0.11'', ''192.168.0.11''])"
    by (simp add: status_defs fixture_defs)
  let ?e = "\<lparr>lbi_IP = ''192.168.0.11'', lbi_Hostname = [],
             lbi_Ports = [\<lparr>ps_Port = 80, ps_Protocol = ''TCP'', ps_Error = None\<rparr>]\<rparr>"
  have src: "svc_Status (lbService [''192.168.0.11'', ''192.168.0.11'']) = [?e] @ ?e # []"
    by (simp add: lbService_def)
  have fst_entry: "statusLoop [?e] statusIngress =
      statusIngress\<lparr>ing_Status :=
        [\<lparr>ilbi_IP = ''192.168.0.10'', ilbi_Hostname = [], ilbi_Ports = []\<rparr>,
         \<lparr>ilbi_IP = ''192.168.0.11'', ilbi_Hostname = [],
           ilbi_Ports = [\<lparr>ips_Port = 80, ips_Protocol = ''TCP'', ips_Error = None\<rparr>]\<rparr>]\<rparr>"
    by (simp add: status_defs fixture_defs)
  from C9_status_reflector[OF h1 h4]
  have "statusLoop ([?e] @ ?e # []) statusIngress =
      statusLoop []
        (if checkIngressLoadBalancerIngressExist (statusLoop [?e] statusIngress) ?e
         then statusLoop [?e] statusIngress
         else (statusLoop [?e] statusIngress)\<lparr>ing_Status :=
                ing_Status (statusLoop [?e] statusIngress) @
                [\<lparr>ilbi_IP = lbi_IP ?e, ilbi_Hostname = lbi_Hostname ?e,
                  ilbi_Ports = map (\<lambda>port. \<lparr>ips_Port = ps_Port port,
                                 ips_Protocol = ps_Protocol port, ips_Error = ps_Error port\<rparr>)
                                 (lbi_Ports ?e)\<rparr>]\<rparr>)"
    by blast
  then have three: "ing_Status (statusLoop (svc_Status (lbService [''192.168.0.11'', ''192.168.0.11'']))
        statusIngress) =
     [\<lparr>ilbi_IP = ''192.168.0.10'', ilbi_Hostname = [], ilbi_Ports = []\<rparr>,
      \<lparr>ilbi_IP = ''192.168.0.11'', ilbi_Hostname = [],
        ilbi_Ports = [\<lparr>ips_Port = 80, ips_Protocol = ''TCP'', ips_Error = None\<rparr>]\<rparr>]"
    by (simp only: src fst_entry) (simp add: checkIngressLoadBalancerIngressExist_def)
  from h1 h2 one h3 two h4 three show ?thesis by blast
qed

text \<open>
  C9 as stated fails: the only address of the status source is already recorded, the
  status of the ingress stays as it is, and the status write is issued all the same.
\<close>

theorem C9_write_without_change_counterexample:
  "checkIngressLoadBalancerIngressExist statusIngress
     (hd (svc_Status (lbService [''192.168.0.10'']))) \<and>
   length (svc_Status (lbService [''192.168.0.10''])) = 1 \<and>
   updateIngressStatus (statusStore [''192.168.0.10'']) statusIngress =
     (None, statusIngress, [GetService defaultLb, StatusUpdate statusIngress])"
  by (simp add: updateIngressStatus_def status_defs fixture_defs Let_def)

subsection \<open>The direct-service scenario\<close>

lemmas direct_defs = ns2Svc2_def directIngress_def svc2_def webPod_def directStore_def
  directModel_def

lemma Atoi_web: "Atoi ''web'' = 0"
  by (simp add: Atoi_def isDigit_def)

lemma ToLower_TCP: "ToLower ''TCP'' = ''tcp''"
  by code_simp

text \<open>
  C5. In the scenario the direct-service builder returns one rule model, with the external IP
  0.0.0.0, the exposed port 9090 and the endpoint at the container port 9090; its identity key
  is built from the namespace of the service, \<^verbatim>\<open>ns2_app\<close>, not from the namespace of the
  ingress. The pass for the ingress \<^verbatim>\<open>ns/app\<close> looks for the keys \<^verbatim>\<open>ns_app\<close> and
  \<^verbatim>\<open>ns_app_https\<close> only, so once the ingress is deleted it leaves that rule installed.
\<close>

theorem C5_direct_scenario_key:
  "createDirectLoxiModelList directStore directIngress =
     ([directModel], None,
      [GetService ns2Svc2, ListPods [''app'' \<mapsto> ''web''], GetEndpoints ns2Svc2]) \<and>
   Name (Service directModel) = ''ns2_app'' \<and>
   ing_Namespace directIngress @ ''_'' @ ing_Name directIngress = ''ns_app'' \<and>
   Reconcile emptyStore (remoteStore ''1.2.3.4'' [directModel] (\<lambda>m. None)) nsApp [directModel] =
     ((\<lparr>RequeueAfter = 0\<rparr>, None), [directModel], [LbList, GetIngress nsApp])"
proof (intro conjI)
  show "createDirectLoxiModelList directStore directIngress =
     ([directModel], None,
      [GetService ns2Svc2, ListPods [''app'' \<mapsto> ''web''], GetEndpoints ns2Svc2])"
    by (simp add: createDirectLoxiModelList_def GetServicePortIntValue_def Atoi_web
          createLoxiLoadBalancerEndpointsWithTargetPort_def
          createDirectLoxiLoadBalancerService_def ToLower_TCP Let_def
          direct_defs fixture_defs)
  show "Name (Service directModel) = ''ns2_app''"
    by (simp add: directModel_def)
  show "ing_Namespace directIngress @ ''_'' @ ing_Name directIngress = ''ns_app''"
    by (simp add: directIngress_def)
  show "Reconcile emptyStore (remoteStore ''1.2.3.4'' [directModel] (\<lambda>m. None)) nsApp [directModel] =
     ((\<lparr>RequeueAfter = 0\<rparr>, None), [directModel], [LbList, GetIngress nsApp])"
    by (simp add: Reconcile_def deleteBoth_def deleteIf_def Let_def direct_defs fixture_defs)
qed

end
